theory Spec2Isabelle
  imports Complex_Main "HOL-Library.Word" "HOL-Library.Product_Lexorder"
begin

section \<open>Raster data and Python values\<close>

text \<open>
  The vectorizer works on numpy arrays. A pixel position is a pair \<open>(x, y)\<close>; the RGB
  raster and the alpha channel hold unsigned bytes (\<open>uint8\<close>). A binary mask (a
  \<open>uint8\<close> array tested with \<open>mask > 0\<close>) is represented by the list of its nonzero
  positions in the row-major order in which \<open>np.where\<close> returns them, so that
  \<open>cv2.countNonZero\<close> is the length of the list. Floating-point numbers are idealised
  as reals. The OpenCV morphology \<open>cv2.erode\<close> is an external library routine and is a
  parameter of the functions that call it: \<open>erode k i m\<close> stands for
  \<open>cv2.erode(m, np.ones((k, k)), iterations=i)\<close>.
\<close>

type_synonym u8 = "8 word"
type_synonym coord = "nat \<times> nat"
type_synonym mask = "coord list"
type_synonym rgb_image = "coord \<Rightarrow> u8 \<times> u8 \<times> u8"
type_synonym alpha_image = "coord \<Rightarrow> u8"
type_synonym color = "int \<times> int \<times> int"
type_synonym erosion = "nat \<Rightarrow> nat \<Rightarrow> mask \<Rightarrow> mask"

datatype py_error = IndexError | TypeError | ValueError | NanValue | RenderError

text \<open>Channel \<open>ch\<close> of a pixel, read as a number (\<open>colors[:, ch]\<close>).\<close>

fun channel :: "nat \<Rightarrow> u8 \<times> u8 \<times> u8 \<Rightarrow> nat" where
  "channel ch (r, g, b) = (if ch = 0 then unat r else if ch = 1 then unat g else unat b)"

text \<open>
  \<open>np.mean\<close> and \<open>np.median\<close> of an empty array are NaN (with a warning, no
  exception); \<open>int(nan)\<close> raises \<open>ValueError\<close>. Both are written out: \<open>None\<close> is NaN.
\<close>

definition np_mean :: "nat list \<Rightarrow> real option" where
  "np_mean xs = (if xs = [] then None else Some (real (sum_list xs) / real (length xs)))"

definition np_median :: "nat list \<Rightarrow> real option" where
  "np_median xs =
     (let s = sort xs; n = length s in
      if n = 0 then None
      else if n mod 2 = 1 then Some (real (s ! (n div 2)))
      else Some ((real (s ! (n div 2 - 1)) + real (s ! (n div 2))) / 2))"

text \<open>Python's \<open>int(v)\<close> on a float: truncation towards zero, \<open>ValueError\<close> on NaN.\<close>

definition py_int :: "real option \<Rightarrow> py_error + int" where
  "py_int v = (case v of None \<Rightarrow> Inl ValueError
               | Some r \<Rightarrow> Inr (if 0 \<le> r then \<lfloor>r\<rfloor> else \<lceil>r\<rceil>))"

text \<open>
  The slice \<open>s[trim:-trim]\<close> for \<open>trim \<ge> 1\<close>: the elements from position
  \<open>min trim n\<close> up to, not including, position \<open>max (n - trim) 0\<close>.
\<close>

definition slice_trim :: "'a list \<Rightarrow> nat \<Rightarrow> 'a list" where
  "slice_trim s trim = take (length s - trim - trim) (drop trim s)"

section \<open>Colour sampling (\<open>sample_color_from_original\<close>)\<close>

definition trimmed_channel :: "(u8 \<times> u8 \<times> u8) list \<Rightarrow> nat \<Rightarrow> nat \<Rightarrow> py_error + int" where
  "trimmed_channel colors trim ch =
     py_int (np_mean (slice_trim (sort (map (channel ch) colors)) trim))"

definition median_channel :: "(u8 \<times> u8 \<times> u8) list \<Rightarrow> nat \<Rightarrow> py_error + int" where
  "median_channel colors ch = py_int (np_median (map (channel ch) colors))"

text \<open>Building a 3-tuple from three computations, the first failure propagating.\<close>

definition tuple3 :: "(nat \<Rightarrow> py_error + int) \<Rightarrow> py_error + color" where
  "tuple3 f =
     (case f 0 of Inl e \<Rightarrow> Inl e | Inr r \<Rightarrow>
      (case f 1 of Inl e \<Rightarrow> Inl e | Inr g \<Rightarrow>
       (case f 2 of Inl e \<Rightarrow> Inl e | Inr b \<Rightarrow> Inr (r, g, b))))"

text \<open>
  The robust colour of a pixel sample, shared by \<open>sample_color_from_original\<close> and
  \<open>direct_optimize_colors\<close>: a trimmed mean per channel for more than 20 samples, a
  median per channel otherwise.
\<close>

definition robust_color :: "(u8 \<times> u8 \<times> u8) list \<Rightarrow> py_error + color" where
  "robust_color colors =
     (let n = length colors in
      if n > 20 then
        (let trim = max 1 (n div 10) in tuple3 (trimmed_channel colors trim))
      else tuple3 (median_channel colors))"

definition sample_color_from_original ::
  "erosion \<Rightarrow> rgb_image \<Rightarrow> alpha_image \<Rightarrow> mask \<Rightarrow> py_error + (color \<times> real)" where
  "sample_color_from_original erode rgb alpha msk =
     (let inner_mask = erode 2 1 msk;
          inner_mask = (if length inner_mask < 5 then msk else inner_mask) in
      if length inner_mask = 0 then Inr ((128, 128, 128), 1)
      else
        (let colors = map rgb inner_mask;
             alphas = map alpha inner_mask in
         case robust_color colors of Inl e \<Rightarrow> Inl e
         | Inr color \<Rightarrow>
           (case np_median (map unat alphas) of None \<Rightarrow> Inl NanValue
            | Some m \<Rightarrow> Inr (color, m / 255))))"


text \<open>The trimmed mean and the median, as total functions on non-empty samples.\<close>

definition trimmed_mean :: "nat list \<Rightarrow> int" where
  "trimmed_mean xs =
     (let s = sort xs; trim = max 1 (length xs div 10); kept = take (length xs - 2 * trim) (drop trim s)
      in int (sum_list kept div length kept))"

definition median_int :: "nat list \<Rightarrow> int" where
  "median_int xs =
     (let s = sort xs; n = length xs in
      if odd n then int (s ! (n div 2)) else int ((s ! (n div 2 - 1) + s ! (n div 2)) div 2))"

definition median_real :: "nat list \<Rightarrow> real" where
  "median_real xs =
     (let s = sort xs; n = length xs in
      if odd n then real (s ! (n div 2)) else (real (s ! (n div 2 - 1)) + real (s ! (n div 2))) / 2)"

definition sample_pixels :: "erosion \<Rightarrow> mask \<Rightarrow> mask" where
  "sample_pixels erode msk = (if length (erode 2 1 msk) < 5 then msk else erode 2 1 msk)"

section \<open>Region merging (\<open>merge_regions\<close>)\<close>

text \<open>
  A computation that may raise and may fail to return: \<open>None\<close> is a loop that never
  ends, \<open>Some (Inl e)\<close> a raised exception, \<open>Some (Inr v)\<close> a normal return.
\<close>

type_synonym 'a res = "(py_error + 'a) option"

definition bind_res :: "'a res \<Rightarrow> ('a \<Rightarrow> 'b res) \<Rightarrow> 'b res" where
  "bind_res m f = (case m of None \<Rightarrow> None | Some (Inl e) \<Rightarrow> Some (Inl e) | Some (Inr v) \<Rightarrow> f v)"

text \<open>A \<open>for\<close> loop over a list, threading the loop state; an exception leaves it.\<close>

fun for_res :: "'a list \<Rightarrow> ('a \<Rightarrow> 's \<Rightarrow> 's res) \<Rightarrow> 's \<Rightarrow> 's res" where
  "for_res [] f s = Some (Inr s)"
| "for_res (x # xs) f s = bind_res (f x s) (for_res xs f)"

text \<open>Indexing an array with a non-negative index: \<open>IndexError\<close> out of range.\<close>

definition get_at :: "'a list \<Rightarrow> nat \<Rightarrow> 'a res" where
  "get_at xs i = (if i < length xs then Some (Inr (xs ! i)) else Some (Inl IndexError))"

type_synonym vec3 = "real \<times> real \<times> real"

fun vscale :: "vec3 \<Rightarrow> real \<Rightarrow> vec3" where
  "vscale (x, y, z) w = (x * w, y * w, z * w)"

fun vadd :: "vec3 \<Rightarrow> vec3 \<Rightarrow> vec3" where
  "vadd (x, y, z) (x', y', z') = (x + x', y + y', z + z')"

fun vsub :: "vec3 \<Rightarrow> vec3 \<Rightarrow> vec3" where
  "vsub (x, y, z) (x', y', z') = (x - x', y - y', z - z')"

text \<open>\<open>np.linalg.norm\<close> of a 3-vector.\<close>

fun vnorm :: "vec3 \<Rightarrow> real" where
  "vnorm (x, y, z) = sqrt (x\<^sup>2 + y\<^sup>2 + z\<^sup>2)"

text \<open>
  The arrays that \<open>merge_regions\<close> works on: the union-find \<open>parent\<close> list it creates
  and the five per-superpixel statistics arrays of \<open>compute_region_stats\<close>, which
  \<open>union\<close> updates in place. Region ids and pixel counts are non-negative.
\<close>

record regions =
  parent :: "nat list"
  counts :: "nat list"
  mean_rgb :: "vec3 list"
  mean_lab :: "vec3 list"
  mean_alpha :: "real list"
  brightness :: "real list"

text \<open>
  \<open>find\<close>, with path halving. The \<open>while\<close> loop has no bound of its own, so the
  function is partial: on a cyclic \<open>parent\<close> list it does not return.
\<close>

partial_function (option) find_uf :: "nat list \<Rightarrow> nat \<Rightarrow> (py_error + nat list \<times> nat) option" where
  "find_uf p x =
     (if length p \<le> x then Some (Inl IndexError)
      else if p ! x = x then Some (Inr (p, x))
      else if length p \<le> p ! x then Some (Inl IndexError)
      else find_uf (p[x := p ! (p ! x)]) (p ! (p ! x)))"

text \<open>
  \<open>union\<close>. After the two \<open>find\<close>s, the root with fewer pixels is attached to the
  other (the first stays root on a tie); the statistics of the new root become the
  count-weighted averages when the total count is positive.
\<close>

definition union_stats :: "regions \<Rightarrow> nat \<Rightarrow> nat \<Rightarrow> nat \<Rightarrow> regions res" where
  "union_stats st ra rb tot =
     (if 0 < tot then
        bind_res (get_at (counts st) ra) (\<lambda>ca. bind_res (get_at (counts st) rb) (\<lambda>cb.
        let w_a = real ca / real tot; w_b = real cb / real tot in
        bind_res (get_at (mean_rgb st) ra) (\<lambda>rgb_a. bind_res (get_at (mean_rgb st) rb) (\<lambda>rgb_b.
        let st = st\<lparr>mean_rgb := (mean_rgb st)[ra := vadd (vscale rgb_a w_a) (vscale rgb_b w_b)]\<rparr> in
        bind_res (get_at (mean_lab st) ra) (\<lambda>lab_a. bind_res (get_at (mean_lab st) rb) (\<lambda>lab_b.
        let st = st\<lparr>mean_lab := (mean_lab st)[ra := vadd (vscale lab_a w_a) (vscale lab_b w_b)]\<rparr> in
        bind_res (get_at (mean_alpha st) ra) (\<lambda>al_a. bind_res (get_at (mean_alpha st) rb) (\<lambda>al_b.
        let st = st\<lparr>mean_alpha := (mean_alpha st)[ra := al_a * w_a + al_b * w_b]\<rparr> in
        bind_res (get_at (mean_lab st) ra) (\<lambda>lab_new.
        if ra < length (brightness st)
        then Some (Inr (st\<lparr>brightness := (brightness st)[ra := fst lab_new]\<rparr>))
        else Some (Inl IndexError))))))))))
      else Some (Inr st))"

definition union_uf :: "regions \<Rightarrow> nat \<Rightarrow> nat \<Rightarrow> regions res" where
  "union_uf st a b =
     bind_res (find_uf (parent st) a) (\<lambda>(p, ra).
     bind_res (find_uf p b) (\<lambda>(p, rb).
     let st = st\<lparr>parent := p\<rparr> in
     if ra = rb then Some (Inr st)
     else
       bind_res (get_at (counts st) ra) (\<lambda>ca. bind_res (get_at (counts st) rb) (\<lambda>cb.
       let (ra, rb) = (if ca < cb then (rb, ra) else (ra, rb));
           st = st\<lparr>parent := (parent st)[rb := ra]\<rparr>;
           tot = counts st ! ra + counts st ! rb in
       bind_res (union_stats st ra rb tot) (\<lambda>st.
       Some (Inr (st\<lparr>counts := (counts st)[ra := tot]\<rparr>)))))))"

text \<open>The merge threshold for two regions of the given brightness.\<close>

definition merge_threshold :: "real \<Rightarrow> real \<Rightarrow> real \<Rightarrow> real \<Rightarrow> real" where
  "merge_threshold color_threshold dark_threshold br_a br_b =
     (let both_dark = (br_a < dark_threshold \<and> br_b < dark_threshold);
          one_dark = ((br_a < dark_threshold) \<noteq> (br_b < dark_threshold)) in
      if one_dark then color_threshold * 0.5
      else if both_dark then color_threshold * 1.3
      else color_threshold)"

text \<open>
  The body of the inner loop \<open>for b in adj[a]\<close>; \<open>ra\<close> is the root computed once before
  the loop. The loop state is the arrays and the \<open>changed\<close> flag.
\<close>

definition scan_neighbor ::
  "real \<Rightarrow> real \<Rightarrow> nat \<Rightarrow> nat \<Rightarrow> regions \<times> bool \<Rightarrow> (regions \<times> bool) res" where
  "scan_neighbor color_threshold dark_threshold ra b s =
     (case s of (st, changed) \<Rightarrow>
      bind_res (find_uf (parent st) b) (\<lambda>(p, rb).
      let st = st\<lparr>parent := p\<rparr> in
      if ra = rb then Some (Inr (st, changed))
      else
        bind_res (get_at (mean_alpha st) rb) (\<lambda>al_b.
        if al_b < 200 then Some (Inr (st, changed))
        else
          bind_res (get_at (counts st) rb) (\<lambda>c_b.
          if c_b = 0 then Some (Inr (st, changed))
          else
            bind_res (get_at (mean_lab st) ra) (\<lambda>lab_a. bind_res (get_at (mean_lab st) rb) (\<lambda>lab_b.
            let lab_dist = vnorm (vsub lab_a lab_b) in
            bind_res (get_at (brightness st) ra) (\<lambda>br_a. bind_res (get_at (brightness st) rb) (\<lambda>br_b.
            let threshold = merge_threshold color_threshold dark_threshold br_a br_b in
            if lab_dist < threshold
            then bind_res (union_uf st ra rb) (\<lambda>st. Some (Inr (st, True)))
            else Some (Inr (st, changed))))))))))"

text \<open>The body of the outer loop \<open>for a in range(n_labels)\<close>; \<open>adj a\<close> lists the
  neighbours of \<open>a\<close> in the order in which the set \<open>adj[a]\<close> is iterated.\<close>

definition scan_region ::
  "real \<Rightarrow> real \<Rightarrow> (nat \<Rightarrow> nat list) \<Rightarrow> nat \<Rightarrow> regions \<times> bool \<Rightarrow> (regions \<times> bool) res" where
  "scan_region color_threshold dark_threshold adj a s =
     (case s of (st, changed) \<Rightarrow>
      bind_res (find_uf (parent st) a) (\<lambda>(p, ra).
      let st = st\<lparr>parent := p\<rparr> in
      bind_res (get_at (mean_alpha st) ra) (\<lambda>al_a.
      if al_a < 200 then Some (Inr (st, changed))
      else
        bind_res (get_at (counts st) ra) (\<lambda>c_a.
        if c_a = 0 then Some (Inr (st, changed))
        else for_res (adj a) (scan_neighbor color_threshold dark_threshold ra) (st, changed)))))"

definition merge_pass ::
  "real \<Rightarrow> real \<Rightarrow> (nat \<Rightarrow> nat list) \<Rightarrow> nat \<Rightarrow> regions \<Rightarrow> (regions \<times> bool) res" where
  "merge_pass color_threshold dark_threshold adj n_labels st =
     for_res [0..<n_labels] (scan_region color_threshold dark_threshold adj) (st, False)"

text \<open>
  The loop \<open>while changed\<close>: it has no iteration cap, so it is partial as well. The
  result carries the number of passes.
\<close>

partial_function (option) merge_passes ::
  "real \<Rightarrow> real \<Rightarrow> (nat \<Rightarrow> nat list) \<Rightarrow> nat \<Rightarrow> regions \<Rightarrow> nat \<Rightarrow> (py_error + regions \<times> nat) option" where
  "merge_passes color_threshold dark_threshold adj n_labels st passes =
     (case merge_pass color_threshold dark_threshold adj n_labels st of
        None \<Rightarrow> None
      | Some (Inl e) \<Rightarrow> Some (Inl e)
      | Some (Inr (st', changed)) \<Rightarrow>
          if changed then merge_passes color_threshold dark_threshold adj n_labels st' (passes + 1)
          else Some (Inr (st', passes + 1)))"

text \<open>
  The merging part of \<open>merge_regions\<close>: \<open>parent = list(range(n_labels))\<close>, then the
  passes. The statistics arrays are the caller's.
\<close>

definition merge_loop ::
  "real \<Rightarrow> real \<Rightarrow> (nat \<Rightarrow> nat list) \<Rightarrow> nat \<Rightarrow> nat list \<Rightarrow> vec3 list \<Rightarrow> vec3 list \<Rightarrow> real list
     \<Rightarrow> real list \<Rightarrow> (py_error + regions \<times> nat) option" where
  "merge_loop color_threshold dark_threshold adj n_labels cnts m_rgb m_lab m_alpha bright =
     merge_passes color_threshold dark_threshold adj n_labels
       \<lparr>parent = [0..<n_labels], counts = cnts, mean_rgb = m_rgb, mean_lab = m_lab,
        mean_alpha = m_alpha, brightness = bright\<rparr> 0"

text \<open>
  Notions for reasoning about the union-find forest: the parent relation, the set of
  roots, the invariant (indices in range and no cycle), and a computation that
  returns or raises, with a postcondition on the value it returns.
\<close>

definition prel :: "nat list \<Rightarrow> (nat \<times> nat) set" where
  "prel p = {(p ! x, x) | x. x < length p \<and> p ! x \<noteq> x}"

definition roots :: "nat list \<Rightarrow> nat set" where
  "roots p = {x. x < length p \<and> p ! x = x}"

definition uf_inv :: "nat list \<Rightarrow> bool" where
  "uf_inv p \<longleftrightarrow> (\<forall>x<length p. p ! x < length p) \<and> wf (prel p)"

definition returns :: "'a res \<Rightarrow> ('a \<Rightarrow> bool) \<Rightarrow> bool" where
  "returns m P \<longleftrightarrow> (\<exists>r. m = Some r \<and> (\<forall>v. r = Inr v \<longrightarrow> P v))"

text \<open>The average of two values weighted by pixel counts, for numbers and 3-vectors.\<close>

definition weighted_avg :: "nat \<Rightarrow> real \<Rightarrow> nat \<Rightarrow> real \<Rightarrow> real" where
  "weighted_avg c1 x1 c2 x2 = (real c1 * x1 + real c2 * x2) / real (c1 + c2)"

fun weighted_avg3 :: "nat \<Rightarrow> vec3 \<Rightarrow> nat \<Rightarrow> vec3 \<Rightarrow> vec3" where
  "weighted_avg3 c1 (x1, y1, z1) c2 (x2, y2, z2) =
     (weighted_avg c1 x1 c2 x2, weighted_avg c1 y1 c2 y2, weighted_avg c1 z1 c2 z2)"

text \<open>The invariants of one merging pass and of the scan of one region's neighbours,
  relative to the set \<open>Rs\<close> of roots at the start of the pass.\<close>

definition pass_inv :: "nat set \<Rightarrow> nat \<Rightarrow> regions \<times> bool \<Rightarrow> bool" where
  "pass_inv Rs n s \<longleftrightarrow> (case s of (st, changed) \<Rightarrow>
      length (parent st) = n \<and> uf_inv (parent st) \<and> roots (parent st) \<subseteq> Rs
      \<and> (changed \<longrightarrow> roots (parent st) \<subset> Rs))"

definition scan_inv :: "nat set \<Rightarrow> nat \<Rightarrow> nat \<Rightarrow> regions \<times> bool \<Rightarrow> bool" where
  "scan_inv Rs n ra s \<longleftrightarrow> pass_inv Rs n s \<and> (ra \<in> roots (parent (fst s)) \<or> roots (parent (fst s)) \<subset> Rs)"

text \<open>Two small inputs: three superpixels in a row, and two superpixels of equal size.\<close>

definition adj3 :: "nat \<Rightarrow> nat list" where
  "adj3 a = (if a = 0 then [1, 2] else if a = 1 then [0] else if a = 2 then [0] else [])"

definition st3 :: regions where
  "st3 = \<lparr>parent = [0, 1, 2], counts = [1, 100, 1],
      mean_rgb = [(170, 170, 170), (210, 210, 210), (130, 130, 130)],
      mean_lab = [(70, 0, 0), (87, 0, 0), (53, 0, 0)],
      mean_alpha = [255, 255, 255], brightness = [70, 87, 53]\<rparr>"

definition adj2 :: "nat \<Rightarrow> nat list" where
  "adj2 a = (if a = 0 then [1] else if a = 1 then [0] else [])"

definition st2 :: regions where
  "st2 = \<lparr>parent = [0, 1], counts = [3, 3],
      mean_rgb = [(100, 110, 120), (110, 120, 130)],
      mean_lab = [(50, 2, 4), (54, 2, 4)],
      mean_alpha = [255, 255], brightness = [50, 54]\<rparr>"

section \<open>Gradient fitting and validation\<close>

text \<open>
  A linear gradient, the dictionary built by \<open>fit_gradient\<close>: the two end colours, the
  end points \<open>(x1, y1)\<close> and \<open>(x2, y2)\<close> of the axis and the fit quality \<open>r2\<close>.
\<close>

record gradient =
  color_start :: color
  color_end :: color
  gx1 :: real
  gy1 :: real
  gx2 :: real
  gy2 :: real
  g_r2 :: real

definition to_float3 :: "u8 \<times> u8 \<times> u8 \<Rightarrow> vec3" where
  "to_float3 c = (real (channel 0 c), real (channel 1 c), real (channel 2 c))"

fun color_vec :: "color \<Rightarrow> vec3" where
  "color_vec (r, g, b) = (real_of_int r, real_of_int g, real_of_int b)"

text \<open>\<open>np.sum((a - b) ** 2)\<close> over the three channels of one pixel.\<close>

fun sq_err :: "vec3 \<Rightarrow> vec3 \<Rightarrow> real" where
  "sq_err (r, g, b) (r', g', b') = (r - r')\<^sup>2 + (g - g')\<^sup>2 + (b - b')\<^sup>2"

text \<open>\<open>np.mean\<close> and \<open>np.clip\<close> on floats; the mean is only taken of non-empty arrays.\<close>

definition mean_real :: "real list \<Rightarrow> real" where
  "mean_real xs = sum_list xs / real (length xs)"

definition clip :: "real \<Rightarrow> real \<Rightarrow> real \<Rightarrow> real" where
  "clip v lo hi = (if v < lo then lo else if hi < v then hi else v)"

definition verify_gradient_improvement ::
  "rgb_image \<Rightarrow> mask \<Rightarrow> color \<Rightarrow> gradient \<Rightarrow> gradient option" where
  "verify_gradient_improvement rgb msk solid_color g =
     (if length msk < 10 then None
      else
        let actual = map (\<lambda>p. to_float3 (rgb p)) msk;
            solid = color_vec solid_color;
            mse_solid = mean_real (map (\<lambda>a. sq_err a solid) actual);
            c_start = color_vec (color_start g);
            c_end = color_vec (color_end g);
            dx = gx2 g - gx1 g;
            dy = gy2 g - gy1 g;
            length_sq = dx * dx + dy * dy in
        if length_sq < 1 then None
        else
          let t = map (\<lambda>(x, y). clip (((real x - gx1 g) * dx + (real y - gy1 g) * dy) / length_sq) 0 1) msk;
              grad_colors = map (\<lambda>t. vadd c_start (vscale (vsub c_end c_start) t)) t;
              mse_gradient = mean_real (map2 sq_err actual grad_colors) in
          if mse_gradient < mse_solid * 0.85 then Some g else None)"

text \<open>
  The error a fill predicts over the masked pixels, in the words of the specification:
  the mean over the pixels of the squared RGB distance between the pixel and the
  colour the fill gives it. A gradient gives a pixel the colour at its projection on the
  axis, clamped to the two ends.
\<close>

definition predicted_mse :: "rgb_image \<Rightarrow> mask \<Rightarrow> (coord \<Rightarrow> vec3) \<Rightarrow> real" where
  "predicted_mse rgb msk fill = (\<Sum>p\<leftarrow>msk. sq_err (to_float3 (rgb p)) (fill p)) / real (length msk)"

definition axis_length_sq :: "gradient \<Rightarrow> real" where
  "axis_length_sq g = (gx2 g - gx1 g)\<^sup>2 + (gy2 g - gy1 g)\<^sup>2"

definition gradient_fill :: "gradient \<Rightarrow> coord \<Rightarrow> vec3" where
  "gradient_fill g p =
     (let t = ((real (fst p) - gx1 g) * (gx2 g - gx1 g) + (real (snd p) - gy1 g) * (gy2 g - gy1 g))
                / axis_length_sq g;
          t = max 0 (min 1 t) in
      vadd (color_vec (color_start g)) (vscale (vsub (color_vec (color_end g)) (color_vec (color_start g))) t))"

text \<open>
  \<open>fit_gradient\<close>. The numpy helpers first: the population standard deviation, the
  maximum and minimum of a non-empty array, a component of a 3-vector read and written,
  and the truncation \<open>int(v)\<close> of a float that is not NaN.
\<close>

definition np_std :: "real list \<Rightarrow> real" where
  "np_std xs = sqrt (mean_real (map (\<lambda>x. (x - mean_real xs)\<^sup>2) xs))"

fun np_max :: "real list \<Rightarrow> real" where
  "np_max [] = 0"
| "np_max (x # xs) = fold max xs x"

fun np_min :: "real list \<Rightarrow> real" where
  "np_min [] = 0"
| "np_min (x # xs) = fold min xs x"

fun vsel :: "nat \<Rightarrow> vec3 \<Rightarrow> real" where
  "vsel ch (x, y, z) = (if ch = 0 then x else if ch = 1 then y else z)"

fun vset :: "vec3 \<Rightarrow> nat \<Rightarrow> real \<Rightarrow> vec3" where
  "vset (x, y, z) ch v = (if ch = 0 then (v, y, z) else if ch = 1 then (x, v, z) else (x, y, v))"

definition trunc :: "real \<Rightarrow> int" where
  "trunc r = (if 0 \<le> r then \<lfloor>r\<rfloor> else \<lceil>r\<rceil>)"

fun trunc3 :: "vec3 \<Rightarrow> color" where
  "trunc3 (x, y, z) = (trunc x, trunc y, trunc z)"

text \<open>The colours of the masked pixels as floats, the mean of their coordinates and
  the coordinates relative to that mean (\<open>colors\<close>, \<open>mean_coord\<close>, \<open>dc\<close>).\<close>

definition pixel_colors :: "rgb_image \<Rightarrow> mask \<Rightarrow> vec3 list" where
  "pixel_colors rgb msk = map (\<lambda>p. to_float3 (rgb p)) msk"

definition mean_coord :: "mask \<Rightarrow> real \<times> real" where
  "mean_coord msk = (mean_real (map (\<lambda>p. real (fst p)) msk), mean_real (map (\<lambda>p. real (snd p)) msk))"

definition centered_coords :: "mask \<Rightarrow> (real \<times> real) list" where
  "centered_coords msk =
     map (\<lambda>p. (real (fst p) - fst (mean_coord msk), real (snd p) - snd (mean_coord msk))) msk"

definition max_channel_std :: "rgb_image \<Rightarrow> mask \<Rightarrow> real" where
  "max_channel_std rgb msk =
     (let colors = pixel_colors rgb msk in
      max (max (np_std (map (vsel 0) colors)) (np_std (map (vsel 1) colors)))
          (np_std (map (vsel 2) colors)))"

text \<open>The axis of a candidate angle, given in degrees: its direction, the projections
  of the pixels on it, their span and the normalised positions \<open>t\<close>.\<close>

definition direction :: "nat \<Rightarrow> real \<times> real" where
  "direction angle_deg = (cos (real angle_deg * pi / 180), sin (real angle_deg * pi / 180))"

definition axis_proj :: "mask \<Rightarrow> nat \<Rightarrow> real list" where
  "axis_proj msk angle_deg =
     map (\<lambda>d. fst d * fst (direction angle_deg) + snd d * snd (direction angle_deg)) (centered_coords msk)"

definition axis_span :: "mask \<Rightarrow> nat \<Rightarrow> real" where
  "axis_span msk angle_deg = np_max (axis_proj msk angle_deg) - np_min (axis_proj msk angle_deg)"

definition axis_t :: "mask \<Rightarrow> nat \<Rightarrow> real list" where
  "axis_t msk angle_deg =
     map (\<lambda>v. (v - np_min (axis_proj msk angle_deg)) / axis_span msk angle_deg) (axis_proj msk angle_deg)"

text \<open>
  The regression of one colour channel \<open>y\<close> against \<open>t\<close>: nothing for a channel with
  \<open>ss_tot < 1\<close> (\<open>continue\<close>), otherwise \<open>ss_tot\<close>, \<open>ss_res\<close> and the two clipped end
  values.
\<close>

definition channel_fit :: "real list \<Rightarrow> real list \<Rightarrow> (real \<times> real \<times> real \<times> real) option" where
  "channel_fit t y =
     (let y_mean = mean_real y;
          ss_tot = (\<Sum>v\<leftarrow>y. (v - y_mean)\<^sup>2) in
      if ss_tot < 1 then None
      else
        let t_mean = mean_real t;
            b = (\<Sum>(ti, yi)\<leftarrow>zip t y. (ti - t_mean) * (yi - y_mean))
                  / ((\<Sum>ti\<leftarrow>t. (ti - t_mean)\<^sup>2) + 1 / 10 ^ 10);
            a = y_mean - b * t_mean;
            predicted = map (\<lambda>ti. a + b * ti) t;
            ss_res = (\<Sum>(yi, pv)\<leftarrow>zip y predicted. (yi - pv)\<^sup>2)
        in Some (ss_tot, ss_res, clip a 0 255, clip (a + b) 0 255))"

text \<open>The loop over the three channels, accumulating \<open>total_var\<close>, \<open>residual_var\<close>,
  \<open>c_start\<close> and \<open>c_end\<close>.\<close>

definition axis_stats :: "real list \<Rightarrow> vec3 list \<Rightarrow> real \<times> real \<times> vec3 \<times> vec3" where
  "axis_stats t colors =
     fold (\<lambda>ch (total_var, residual_var, c_start, c_end).
             case channel_fit t (map (vsel ch) colors) of
               None \<Rightarrow> (total_var, residual_var, c_start, c_end)
             | Some (ss_tot, ss_res, cs, ce) \<Rightarrow>
                 (total_var + ss_tot, residual_var + ss_res, vset c_start ch cs, vset c_end ch ce))
          [0, 1, 2] (0, 0, (0, 0, 0), (0, 0, 0))"

definition axis_total_var :: "rgb_image \<Rightarrow> mask \<Rightarrow> nat \<Rightarrow> real" where
  "axis_total_var rgb msk angle_deg =
     (case axis_stats (axis_t msk angle_deg) (pixel_colors rgb msk) of
        (total_var, residual_var, c_start, c_end) \<Rightarrow> total_var)"

definition axis_r2 :: "rgb_image \<Rightarrow> mask \<Rightarrow> nat \<Rightarrow> real" where
  "axis_r2 rgb msk angle_deg =
     (case axis_stats (axis_t msk angle_deg) (pixel_colors rgb msk) of
        (total_var, residual_var, c_start, c_end) \<Rightarrow> 1 - residual_var / total_var)"

definition axis_color_range :: "rgb_image \<Rightarrow> mask \<Rightarrow> nat \<Rightarrow> real" where
  "axis_color_range rgb msk angle_deg =
     (case axis_stats (axis_t msk angle_deg) (pixel_colors rgb msk) of
        (total_var, residual_var, c_start, c_end) \<Rightarrow> vnorm (vsub c_end c_start))"

text \<open>The dictionary stored for an accepted axis.\<close>

definition axis_gradient :: "rgb_image \<Rightarrow> mask \<Rightarrow> nat \<Rightarrow> gradient" where
  "axis_gradient rgb msk angle_deg =
     (case axis_stats (axis_t msk angle_deg) (pixel_colors rgb msk) of
        (total_var, residual_var, c_start, c_end) \<Rightarrow>
          \<lparr>color_start = trunc3 c_start, color_end = trunc3 c_end,
           gx1 = fst (mean_coord msk) - fst (direction angle_deg) * axis_span msk angle_deg / 2,
           gy1 = snd (mean_coord msk) - snd (direction angle_deg) * axis_span msk angle_deg / 2,
           gx2 = fst (mean_coord msk) + fst (direction angle_deg) * axis_span msk angle_deg / 2,
           gy2 = snd (mean_coord msk) + snd (direction angle_deg) * axis_span msk angle_deg / 2,
           g_r2 = axis_r2 rgb msk angle_deg\<rparr>)"

text \<open>The body of the loop over the angles; the loop state is \<open>(best, best_r2)\<close>.\<close>

definition sweep_step ::
  "rgb_image \<Rightarrow> mask \<Rightarrow> nat \<Rightarrow> gradient option \<times> real \<Rightarrow> gradient option \<times> real" where
  "sweep_step rgb msk angle_deg s =
     (case s of (best, best_r2) \<Rightarrow>
      if axis_span msk angle_deg < 6 then (best, best_r2)
      else if axis_total_var rgb msk angle_deg < 1 then (best, best_r2)
      else if axis_r2 rgb msk angle_deg > best_r2 \<and> axis_r2 rgb msk angle_deg > 0.20
              \<and> axis_color_range rgb msk angle_deg > 15
      then (Some (axis_gradient rgb msk angle_deg), axis_r2 rgb msk angle_deg)
      else (best, best_r2))"

text \<open>\<open>range(0, 180, 5)\<close>.\<close>

definition sweep_angles :: "nat list" where
  "sweep_angles = map (\<lambda>k. 5 * k) [0..<36]"

definition fit_gradient :: "rgb_image \<Rightarrow> mask \<Rightarrow> gradient option" where
  "fit_gradient rgb msk =
     (if length msk < 20 then None
      else if max_channel_std rgb msk < 5 then None
      else fst (fold (sweep_step rgb msk) sweep_angles (None, 0)))"

text \<open>An axis passes the quality gates of the sweep.\<close>

definition axis_accepted :: "rgb_image \<Rightarrow> mask \<Rightarrow> nat \<Rightarrow> bool" where
  "axis_accepted rgb msk angle_deg \<longleftrightarrow>
     6 \<le> axis_span msk angle_deg \<and> 0.20 < axis_r2 rgb msk angle_deg
     \<and> 15 < axis_color_range rgb msk angle_deg"

text \<open>A ten-pixel grey ramp along the x axis and the gradient that matches it.\<close>

definition ramp_image :: rgb_image where
  "ramp_image p = (of_nat (25 * fst p), of_nat (25 * fst p), of_nat (25 * fst p))"

definition ramp_mask :: mask where
  "ramp_mask = map (\<lambda>x. (x, 0)) [0..<10]"

definition ramp_gradient :: gradient where
  "ramp_gradient = \<lparr>color_start = (0, 0, 0), color_end = (225, 225, 225),
      gx1 = 0, gy1 = 0, gx2 = 9, gy2 = 0, g_r2 = 1\<rparr>"

text \<open>The total sum of squares of a channel, and its contribution to \<open>total_var\<close>.\<close>

definition ss_tot_of :: "real list \<Rightarrow> real" where
  "ss_tot_of y = (\<Sum>v\<leftarrow>y. (v - mean_real y)\<^sup>2)"

definition gated :: "real list \<Rightarrow> real" where
  "gated y = (if ss_tot_of y < 1 then 0 else ss_tot_of y)"

text \<open>Twenty pixels in two columns ten pixels apart, black on the left and grey on the
  right.\<close>

definition two_tone_image :: rgb_image where
  "two_tone_image p = (if fst p = 0 then (0, 0, 0) else (100, 100, 100))"

definition two_tone_mask :: mask where
  "two_tone_mask = concat (map (\<lambda>y. [(0, y), (10, y)]) [0..<10])"

section \<open>Polygons and their serialization (\<open>polygons_to_svg\<close>)\<close>

text \<open>
  A polygon dictionary. \<open>p_brightness\<close> is its key \<open>"brightness"\<close> (the name is taken by
  the array of the merger) and \<open>grad_id\<close> its key \<open>"_grad_id"\<close>, which
  \<open>polygons_to_svg\<close> writes: \<open>Some k\<close> stands for the string \<open>g\<close>\<open>k\<close>, \<open>None\<close> for an
  absent key. Polygon vertices are integers.
\<close>

record polygon =
  points :: "(int \<times> int) list"
  color :: color
  opacity :: real
  area :: real
  gradient :: "gradient option"
  centroid :: "real \<times> real"
  p_brightness :: real
  region_id :: "nat option"
  grad_id :: "nat option"

text \<open>An entry of \<open>stroke_info\<close>, and the dictionary from region ids to entries.\<close>

record stroke =
  width :: real
  stroke_color :: color
  dark_fraction :: real

type_synonym stroke_info = "nat \<Rightarrow> stroke option"

text \<open>
  The markup, as a document rather than as text: the gradient definitions with their
  ids, the filled polygons in the order of emission and the outline polygons after
  them. A fill or stroke attribute is a colour or a reference \<open>url(#gk)\<close>.
\<close>

datatype paint = Solid color | Url nat

record svg_polygon =
  sp_points :: "(int \<times> int) list"
  sp_fill :: paint
  sp_stroke :: paint
  sp_fill_opacity :: "real option"

record svg_outline =
  so_points :: "(int \<times> int) list"
  so_stroke :: color
  so_width :: real

record svg_doc =
  doc_width :: nat
  doc_height :: nat
  doc_defs :: "(nat \<times> gradient) list"
  doc_fills :: "svg_polygon list"
  doc_outlines :: "svg_outline list"

text \<open>
  \<open>sorted(polygons, key=lambda p: (-p["area"], p["brightness"]))\<close>. The sorted list
  holds the same dictionaries as \<open>polygons\<close>, so it is kept as the list of their
  positions; Python's sort is stable, as \<open>sort_key\<close> is, and tuples compare
  lexicographically.
\<close>

definition z_order :: "polygon list \<Rightarrow> nat list" where
  "z_order polygons =
     sort_key (\<lambda>i. (- area (polygons ! i), p_brightness (polygons ! i))) [0..<length polygons]"

text \<open>First pass: every polygon with a gradient gets the next id and a definition.\<close>

fun assign_grad_ids ::
  "nat list \<Rightarrow> polygon list \<Rightarrow> nat \<Rightarrow> (nat \<times> gradient) list \<Rightarrow> polygon list \<times> (nat \<times> gradient) list" where
  "assign_grad_ids [] polygons k defs = (polygons, defs)"
| "assign_grad_ids (i # is) polygons k defs =
     (case gradient (polygons ! i) of
        None \<Rightarrow> assign_grad_ids is polygons k defs
      | Some g \<Rightarrow>
          assign_grad_ids is (polygons[i := (polygons ! i)\<lparr>grad_id := Some k\<rparr>]) (k + 1)
            (defs @ [(k, g)]))"

text \<open>Second pass: the filled polygon of one dictionary.\<close>

definition fill_polygon :: "polygon \<Rightarrow> svg_polygon" where
  "fill_polygon poly =
     (let fill_hex = Solid (color poly);
          fill_attr = (case grad_id poly of Some k \<Rightarrow> Url k | None \<Rightarrow> fill_hex);
          stroke_attr = (case grad_id poly of Some k \<Rightarrow> fill_attr | None \<Rightarrow> fill_hex) in
      \<lparr>sp_points = points poly, sp_fill = fill_attr, sp_stroke = stroke_attr,
       sp_fill_opacity = (if opacity poly < 0.99 then Some (opacity poly) else None)\<rparr>)"

text \<open>Polygons with an opacity below 0.01 are skipped.\<close>

definition visible :: "polygon \<Rightarrow> bool" where
  "visible poly \<longleftrightarrow> \<not> opacity poly < 0.01"

text \<open>Second layer: the outline of a polygon whose region has a stroke entry.\<close>

definition has_stroke :: "stroke_info \<Rightarrow> polygon \<Rightarrow> bool" where
  "has_stroke stroke_info poly =
     (case region_id poly of None \<Rightarrow> False | Some rid \<Rightarrow> stroke_info rid \<noteq> None)"

definition outline_polygon :: "stroke_info \<Rightarrow> polygon \<Rightarrow> svg_outline" where
  "outline_polygon stroke_info poly =
     (let si = the (stroke_info (the (region_id poly))) in
      \<lparr>so_points = points poly, so_stroke = stroke_color si, so_width = width si\<rparr>)"

text \<open>\<open>polygons_to_svg\<close> returns the markup; the polygons come back with their
  \<open>_grad_id\<close> keys written.\<close>

definition polygons_to_svg ::
  "polygon list \<Rightarrow> nat \<Rightarrow> nat \<Rightarrow> stroke_info \<Rightarrow> svg_doc \<times> polygon list" where
  "polygons_to_svg polygons w h stroke_info =
     (let polygons_sorted = z_order polygons;
          (polygons', grad_defs) = assign_grad_ids polygons_sorted polygons 0 [] in
      (\<lparr>doc_width = w, doc_height = h, doc_defs = grad_defs,
        doc_fills = map (\<lambda>i. fill_polygon (polygons' ! i))
                      (filter (\<lambda>i. visible (polygons' ! i)) polygons_sorted),
        doc_outlines = map (\<lambda>i. outline_polygon stroke_info (polygons' ! i))
                         (filter (\<lambda>i. has_stroke stroke_info (polygons' ! i)) polygons_sorted)\<rparr>,
       polygons'))"

text \<open>
  The quantizing vectorizer (\<open>vectorize_quantized.py\<close>): a colour layer with its traced
  paths, and the order in which \<open>main\<close> hands the layers to \<open>build_svg\<close>:
  \<open>layers.sort(key=lambda l: (-l["total_area"], -l["brightness"]))\<close>. \<open>build_svg\<close>
  emits the paths layer by layer.
\<close>

record layer =
  layer_color :: color
  paths :: "(string \<times> real) list"
  layer_brightness :: real
  total_area :: real
  pixel_count :: nat

definition sort_layers :: "layer list \<Rightarrow> layer list" where
  "sort_layers layers = sort_key (\<lambda>l. (- total_area l, - layer_brightness l)) layers"

text \<open>
  The orders the claims speak of, on the list of (area, brightness) pairs of the shapes
  in the order of emission: larger area first and, among equal areas, darker first;
  the same with brighter first among equal areas.
\<close>

definition dark_first :: "(real \<times> real) list \<Rightarrow> bool" where
  "dark_first xs \<longleftrightarrow>
     (\<forall>j<length xs. \<forall>i<j. fst (xs ! j) < fst (xs ! i)
         \<or> fst (xs ! i) = fst (xs ! j) \<and> snd (xs ! i) \<le> snd (xs ! j))"

definition bright_first :: "(real \<times> real) list \<Rightarrow> bool" where
  "bright_first xs \<longleftrightarrow>
     (\<forall>j<length xs. \<forall>i<j. fst (xs ! j) < fst (xs ! i)
         \<or> fst (xs ! i) = fst (xs ! j) \<and> snd (xs ! j) \<le> snd (xs ! i))"

definition shape_key :: "polygon \<Rightarrow> real \<times> real" where
  "shape_key poly = (area poly, p_brightness poly)"

definition layer_key :: "layer \<Rightarrow> real \<times> real" where
  "layer_key l = (total_area l, layer_brightness l)"

section \<open>Direct colour optimization (\<open>direct_optimize_colors\<close>)\<close>

text \<open>
  The label map is a two-dimensional array of region ids, \<open>-1\<close> for background. The
  mask \<open>labels == rid\<close> lists its positions row by row.
\<close>

type_synonym label_map = "int list list"

definition region_mask :: "label_map \<Rightarrow> nat \<Rightarrow> mask" where
  "region_mask labels rid =
     concat (map (\<lambda>y. map (\<lambda>x. (x, y)) (filter (\<lambda>x. labels ! y ! x = int rid) [0..<length (labels ! y)]))
               [0..<length labels])"

text \<open>The interior of a region: eroded three times, once if that leaves fewer than 10
  pixels, not at all if that leaves fewer than 5.\<close>

definition interior_pixels :: "erosion \<Rightarrow> label_map \<Rightarrow> nat \<Rightarrow> mask" where
  "interior_pixels erode labels rid =
     (let full_mask = region_mask labels rid;
          eroded = erode 3 3 full_mask;
          eroded = (if length eroded < 10 then erode 3 1 full_mask else eroded);
          eroded = (if length eroded < 5 then full_mask else eroded)
      in eroded)"

text \<open>The body of the loop over the polygons: the polygon after the step, and whether
  its colour was adjusted.\<close>

definition optimize_polygon ::
  "erosion \<Rightarrow> rgb_image \<Rightarrow> label_map \<Rightarrow> polygon \<Rightarrow> py_error + (polygon \<times> bool)" where
  "optimize_polygon erode rgb labels poly =
     (case region_id poly of
        None \<Rightarrow> Inr (poly, False)
      | Some rid \<Rightarrow>
          let eroded = interior_pixels erode labels rid in
          if length eroded < 5 then Inr (poly, False)
          else
            let colors = map rgb eroded;
                n = length colors in
            case robust_color colors of
              Inl e \<Rightarrow> Inl e
            | Inr optimal \<Rightarrow>
                let adjusted = (optimal \<noteq> color poly);
                    poly = (if adjusted then poly\<lparr>color := optimal\<rparr> else poly);
                    poly =
                      (if gradient poly \<noteq> None \<and> n > 50 then
                         (case fit_gradient rgb eroded of
                            None \<Rightarrow> poly
                          | Some new_grad \<Rightarrow>
                              (case verify_gradient_improvement rgb eroded optimal new_grad of
                                 None \<Rightarrow> poly
                               | Some verified \<Rightarrow> poly\<lparr>gradient := Some verified\<rparr>))
                       else poly)
                in Inr (poly, adjusted))"

fun optimize_loop ::
  "erosion \<Rightarrow> rgb_image \<Rightarrow> label_map \<Rightarrow> polygon list \<Rightarrow> nat \<Rightarrow> py_error + (polygon list \<times> nat)" where
  "optimize_loop erode rgb labels [] n_adjusted = Inr ([], n_adjusted)"
| "optimize_loop erode rgb labels (poly # polygons) n_adjusted =
     (case optimize_polygon erode rgb labels poly of
        Inl e \<Rightarrow> Inl e
      | Inr (poly', adjusted) \<Rightarrow>
          (case optimize_loop erode rgb labels polygons (if adjusted then n_adjusted + 1 else n_adjusted) of
             Inl e \<Rightarrow> Inl e
           | Inr (polygons', n) \<Rightarrow> Inr (poly' # polygons', n)))"

text \<open>\<open>direct_optimize_colors\<close> returns the number of adjusted colours; the polygons
  come back updated.\<close>

definition direct_optimize_colors ::
  "erosion \<Rightarrow> rgb_image \<Rightarrow> label_map \<Rightarrow> polygon list \<Rightarrow> py_error + (polygon list \<times> nat)" where
  "direct_optimize_colors erode rgb labels polygons = optimize_loop erode rgb labels polygons 0"

section \<open>The refinement loop (\<open>iterative_refine\<close>, phase 2)\<close>

text \<open>
  \<open>_snapshot_state\<close> copies the colour and the gradient of every polygon and the width
  of every stroke entry. \<open>_restore_state\<close> writes them back, pairing polygons and
  saved states with \<open>zip\<close>; called with \<open>None\<close> for the saved states, as they are
  before the first snapshot, \<open>zip(polygons, None)\<close> raises \<open>TypeError\<close>.
\<close>

type_synonym snapshot = "(color \<times> gradient option) list \<times> (nat \<Rightarrow> real option)"

definition snapshot_state :: "polygon list \<Rightarrow> stroke_info \<Rightarrow> snapshot" where
  "snapshot_state polygons stroke_info =
     (map (\<lambda>p. (color p, gradient p)) polygons, \<lambda>rid. map_option width (stroke_info rid))"

definition restore_state ::
  "polygon list \<Rightarrow> stroke_info \<Rightarrow> snapshot option \<Rightarrow> py_error + (polygon list \<times> stroke_info)" where
  "restore_state polygons stroke_info saved =
     (case saved of
        None \<Rightarrow> Inl TypeError
      | Some (poly_state, stroke_state) \<Rightarrow>
          Inr (map2 (\<lambda>p s. p\<lparr>color := fst s, gradient := snd s\<rparr>) polygons poly_state
                 @ drop (length poly_state) polygons,
               \<lambda>rid. case stroke_info rid of
                        None \<Rightarrow> None
                      | Some si \<Rightarrow>
                          (case stroke_state rid of None \<Rightarrow> Some si
                           | Some w \<Rightarrow> Some (si\<lparr>width := w\<rparr>))))"

text \<open>
  \<open>compute_psnr\<close> over the foreground pixels. With no foreground pixel the mean is NaN
  and so is the result (\<open>None\<close>); a comparison with NaN is false.
\<close>

definition compute_psnr :: "rgb_image \<Rightarrow> rgb_image \<Rightarrow> mask \<Rightarrow> real option" where
  "compute_psnr orig rendered fg_mask =
     (if fg_mask = [] then None
      else
        let mse = mean_real (concat (map (\<lambda>p.
                    [(vsel 0 (to_float3 (orig p)) - vsel 0 (to_float3 (rendered p)))\<^sup>2,
                     (vsel 1 (to_float3 (orig p)) - vsel 1 (to_float3 (rendered p)))\<^sup>2,
                     (vsel 2 (to_float3 (orig p)) - vsel 2 (to_float3 (rendered p)))\<^sup>2]) fg_mask)) in
        if mse < 1 / 10 ^ 10 then Some 100
        else Some (10 * log 10 (255\<^sup>2 / mse)))"

definition psnr_greater :: "real option \<Rightarrow> real \<Rightarrow> bool" where
  "psnr_greater psnr best = (case psnr of None \<Rightarrow> False | Some v \<Rightarrow> best < v)"

text \<open>\<open>alpha > 200\<close> on an image of the given width and height.\<close>

definition foreground :: "alpha_image \<Rightarrow> nat \<Rightarrow> nat \<Rightarrow> mask" where
  "foreground alpha w h =
     concat (map (\<lambda>y. map (\<lambda>x. (x, y)) (filter (\<lambda>x. 200 < unat (alpha (x, y))) [0..<w])) [0..<h])"

text \<open>\<open>compute_per_polygon_error\<close>: the error record of a region, and the list with an
  entry for the last polygon of every region id.\<close>

record err_stats =
  mse :: real
  orig_mean :: vec3
  rend_mean :: vec3
  n_pixels :: nat

definition vmean :: "vec3 list \<Rightarrow> vec3" where
  "vmean vs = (mean_real (map (vsel 0) vs), mean_real (map (vsel 1) vs), mean_real (map (vsel 2) vs))"

definition region_error :: "erosion \<Rightarrow> rgb_image \<Rightarrow> rgb_image \<Rightarrow> label_map \<Rightarrow> nat \<Rightarrow> err_stats" where
  "region_error erode orig rendered labels rid =
     (let full_mask = region_mask labels rid;
          eroded = erode 3 2 full_mask;
          interior = (if length eroded < 10 then full_mask else eroded);
          n = length interior in
      if n < 5 then \<lparr>mse = 0, orig_mean = (0, 0, 0), rend_mean = (0, 0, 0), n_pixels = 0\<rparr>
      else
        let orig_px = map (\<lambda>p. to_float3 (orig p)) interior;
            rend_px = map (\<lambda>p. to_float3 (rendered p)) interior in
        \<lparr>mse = mean_real (map2 sq_err orig_px rend_px), orig_mean = vmean orig_px,
         rend_mean = vmean rend_px, n_pixels = n\<rparr>)"

definition rid_to_idx :: "polygon list \<Rightarrow> nat \<Rightarrow> nat option" where
  "rid_to_idx polygons =
     fold (\<lambda>i m. case region_id (polygons ! i) of None \<Rightarrow> m | Some rid \<Rightarrow> m(rid \<mapsto> i))
          [0..<length polygons] (\<lambda>rid. None)"

definition compute_per_polygon_error ::
  "erosion \<Rightarrow> rgb_image \<Rightarrow> rgb_image \<Rightarrow> label_map \<Rightarrow> polygon list \<Rightarrow> err_stats option list" where
  "compute_per_polygon_error erode orig rendered labels polygons =
     map (\<lambda>i. case region_id (polygons ! i) of
                 None \<Rightarrow> None
               | Some rid \<Rightarrow>
                   if rid_to_idx polygons rid = Some i
                   then Some (region_error erode orig rendered labels rid) else None)
         [0..<length polygons]"

text \<open>The candidates of an iteration: the entries with pixels, by descending error,
  the top half in the first three iterations and the top quarter later, at least one.\<close>

definition candidates :: "nat \<Rightarrow> err_stats option list \<Rightarrow> (nat \<times> err_stats) list" where
  "candidates iteration errors =
     (let indexed_errors =
            concat (map (\<lambda>i. case errors ! i of None \<Rightarrow> []
                              | Some e \<Rightarrow> if n_pixels e > 0 then [(i, e)] else [])
                        [0..<length errors]);
          indexed_errors = sort_key (\<lambda>x. - mse (snd x)) indexed_errors;
          n_candidates =
            max 1 (if iteration < 3 then length indexed_errors div 2 else length indexed_errors div 4)
      in take n_candidates indexed_errors)"

definition try_upgrade_to_gradient ::
  "rgb_image \<Rightarrow> label_map \<Rightarrow> polygon \<Rightarrow> err_stats option \<Rightarrow> polygon \<times> bool" where
  "try_upgrade_to_gradient rgb labels poly error_stats =
     (if gradient poly \<noteq> None then (poly, False)
      else if (case error_stats of None \<Rightarrow> True | Some e \<Rightarrow> mse e < 400) then (poly, False)
      else
        case region_id poly of
          None \<Rightarrow> (poly, False)
        | Some rid \<Rightarrow>
            let msk = region_mask labels rid in
            if length msk < 50 then (poly, False)
            else
              case fit_gradient rgb msk of
                None \<Rightarrow> (poly, False)
              | Some grad \<Rightarrow>
                  (case verify_gradient_improvement rgb msk (color poly) grad of
                     Some grad \<Rightarrow> (poly\<lparr>gradient := Some grad\<rparr>, True)
                   | None \<Rightarrow> (poly, False)))"

definition upgrade_candidates ::
  "rgb_image \<Rightarrow> label_map \<Rightarrow> (nat \<times> err_stats) list \<Rightarrow> polygon list \<Rightarrow> polygon list \<times> nat" where
  "upgrade_candidates rgb labels cands polygons =
     fold (\<lambda>(idx, err) (polygons, n_grad_upgrade).
             case try_upgrade_to_gradient rgb labels (polygons ! idx) (Some err) of
               (poly, upgraded) \<Rightarrow>
                 (polygons[idx := poly], if upgraded then n_grad_upgrade + 1 else n_grad_upgrade))
          cands (polygons, 0)"

text \<open>
  What the loop works with: the erosion and the rasterizer (external), the original
  image, its foreground mask, the label map and the size of the image. The rasterizer
  turns markup into an RGB raster or fails.
\<close>

record refine_env =
  env_erode :: erosion
  env_render :: "svg_doc \<Rightarrow> py_error + rgb_image"
  env_rgb :: rgb_image
  env_fg_mask :: mask
  env_labels :: label_map
  env_width :: nat
  env_height :: nat

text \<open>The variables of the loop.\<close>

record refine_state =
  rs_polygons :: "polygon list"
  rs_stroke_info :: stroke_info
  rs_best_psnr :: real
  rs_best_state :: "snapshot option"
  rs_stale_count :: nat

text \<open>Writing the markup and rendering it (\<open>polygons_to_svg\<close>, \<open>render_svg_to_array\<close>).\<close>

definition write_and_render ::
  "refine_env \<Rightarrow> polygon list \<Rightarrow> stroke_info \<Rightarrow> py_error + (svg_doc \<times> polygon list \<times> rgb_image)" where
  "write_and_render env polygons stroke_info =
     (case polygons_to_svg polygons (env_width env) (env_height env) stroke_info of
        (svg, polygons') \<Rightarrow>
          (case env_render env svg of
             Inl e \<Rightarrow> Inl e
           | Inr rendered_rgb \<Rightarrow> Inr (svg, polygons', rendered_rgb)))"

text \<open>Snapshot or rollback, on the PSNR of the iteration.\<close>

definition track_best :: "real option \<Rightarrow> refine_state \<Rightarrow> py_error + refine_state" where
  "track_best psnr st =
     (if psnr_greater psnr (rs_best_psnr st)
      then Inr (st\<lparr>rs_best_psnr := the psnr,
                   rs_best_state := Some (snapshot_state (rs_polygons st) (rs_stroke_info st)),
                   rs_stale_count := 0\<rparr>)
      else
        case restore_state (rs_polygons st) (rs_stroke_info st) (rs_best_state st) of
          Inl e \<Rightarrow> Inl e
        | Inr (polygons, stroke_info) \<Rightarrow>
            Inr (st\<lparr>rs_polygons := polygons, rs_stroke_info := stroke_info,
                     rs_stale_count := rs_stale_count st + 1\<rparr>))"

text \<open>One iteration of the loop; the flag says whether the loop goes on (no \<open>break\<close>).\<close>

definition refine_step :: "refine_env \<Rightarrow> nat \<Rightarrow> refine_state \<Rightarrow> py_error + (refine_state \<times> bool)" where
  "refine_step env iteration st =
     (case write_and_render env (rs_polygons st) (rs_stroke_info st) of
        Inl e \<Rightarrow> Inl e
      | Inr (svg, polygons, rendered_rgb) \<Rightarrow>
          let psnr = compute_psnr (env_rgb env) rendered_rgb (env_fg_mask env) in
          case track_best psnr (st\<lparr>rs_polygons := polygons\<rparr>) of
            Inl e \<Rightarrow> Inl e
          | Inr st \<Rightarrow>
              if rs_stale_count st \<ge> 3 then Inr (st, False)
              else
                case (if rs_stale_count st > 0
                      then write_and_render env (rs_polygons st) (rs_stroke_info st)
                      else Inr (svg, rs_polygons st, rendered_rgb)) of
                  Inl e \<Rightarrow> Inl e
                | Inr (svg, polygons, rendered_rgb) \<Rightarrow>
                    let errors = compute_per_polygon_error (env_erode env) (env_rgb env) rendered_rgb
                                   (env_labels env) polygons;
                        cands = candidates iteration errors in
                    case upgrade_candidates (env_rgb env) (env_labels env) cands polygons of
                      (polygons, n_grad_upgrade) \<Rightarrow>
                        Inr (st\<lparr>rs_polygons := polygons\<rparr>, n_grad_upgrade \<noteq> 0))"

fun refine_iterations :: "refine_env \<Rightarrow> nat list \<Rightarrow> refine_state \<Rightarrow> py_error + refine_state" where
  "refine_iterations env [] st = Inr st"
| "refine_iterations env (iteration # rest) st =
     (case refine_step env iteration st of
        Inl e \<Rightarrow> Inl e
      | Inr (st', continue) \<Rightarrow> if continue then refine_iterations env rest st' else Inr st')"

text \<open>
  Phase 2 of \<open>iterative_refine\<close> and what follows it: the loop, the restore of the best
  snapshot (when \<open>best_poly_state\<close> is a non-empty list), the final write and the
  final render. The result is the final markup, the final polygons and strokes, the
  best PSNR of the loop and the PSNR of the final render.
\<close>

record refine_result =
  final_svg :: svg_doc
  final_polygons :: "polygon list"
  final_stroke_info :: stroke_info
  best_psnr :: real
  final_psnr :: "real option"

definition refinement_loop ::
  "refine_env \<Rightarrow> nat \<Rightarrow> polygon list \<Rightarrow> stroke_info \<Rightarrow> py_error + refine_result" where
  "refinement_loop env max_iterations polygons stroke_info =
     (case refine_iterations env [0..<max_iterations]
             \<lparr>rs_polygons = polygons, rs_stroke_info = stroke_info, rs_best_psnr = 0,
              rs_best_state = None, rs_stale_count = 0\<rparr> of
        Inl e \<Rightarrow> Inl e
      | Inr st \<Rightarrow>
          (case (if (case rs_best_state st of None \<Rightarrow> False | Some (poly_state, stroke_state) \<Rightarrow> poly_state \<noteq> [])
                 then restore_state (rs_polygons st) (rs_stroke_info st) (rs_best_state st)
                 else Inr (rs_polygons st, rs_stroke_info st)) of
             Inl e \<Rightarrow> Inl e
           | Inr (polygons, stroke_info) \<Rightarrow>
               (case write_and_render env polygons stroke_info of
                  Inl e \<Rightarrow> Inl e
                | Inr (svg, polygons, rendered_rgb) \<Rightarrow>
                    Inr \<lparr>final_svg = svg, final_polygons = polygons, final_stroke_info = stroke_info,
                         best_psnr = rs_best_psnr st,
                         final_psnr = compute_psnr (env_rgb env) rendered_rgb (env_fg_mask env)\<rparr>)))"

text \<open>Two polygon dictionaries that differ at most in their \<open>_grad_id\<close> key.\<close>

definition same_shape :: "polygon \<Rightarrow> polygon \<Rightarrow> bool" where
  "same_shape p q \<longleftrightarrow> area p = area q \<and> p_brightness p = p_brightness q \<and> opacity p = opacity q
     \<and> color p = color q \<and> gradient p = gradient q \<and> points p = points q
     \<and> region_id p = region_id q"

text \<open>Sample polygons and layers.\<close>

definition demo_polygon :: "int \<Rightarrow> real \<Rightarrow> real \<Rightarrow> polygon" where
  "demo_polygon x a b =
     \<lparr>points = [(x, 0), (x + 1, 0), (x, 1)], color = (10, 20, 30), opacity = 1, area = a,
      gradient = None, centroid = (0, 0), p_brightness = b, region_id = Some (nat x),
      grad_id = None\<rparr>"

definition demo_layer :: "real \<Rightarrow> layer" where
  "demo_layer b = \<lparr>layer_color = (0, 0, 0), paths = [(''M0,0L1,0L0,1Z'', 100)],
      layer_brightness = b, total_area = 100, pixel_count = 100\<rparr>"

text \<open>
  A one-pixel white image for which no polygon was extracted, with a rasterizer that
  renders the empty document as transparent black; and a solid polygon over a 50 by 3
  image.
\<close>

definition blank_env :: refine_env where
  "blank_env = \<lparr>env_erode = (\<lambda>k i m. []), env_render = (\<lambda>svg. Inr (\<lambda>p. (0, 0, 0))),
      env_rgb = (\<lambda>p. (255, 255, 255)), env_fg_mask = foreground (\<lambda>p. 255) 1 1,
      env_labels = [[0]], env_width = 1, env_height = 1\<rparr>"

definition solid_polygon :: polygon where
  "solid_polygon = \<lparr>points = [(0, 0), (49, 0), (49, 2), (0, 2)], color = (100, 100, 100), opacity = 1,
      area = 98, gradient = None, centroid = (24.5, 1), p_brightness = 42, region_id = Some 0,
      grad_id = None\<rparr>"

section \<open>Properties of colour sampling\<close>


lemma py_int_mean: "xs \<noteq> [] \<Longrightarrow> py_int (np_mean xs) = Inr (int (sum_list xs div length xs))"
  by (simp add: py_int_def np_mean_def floor_divide_of_nat_eq)

lemma floor_half_sum: "\<lfloor>(real a + real b) / 2\<rfloor> = int ((a + b) div 2)"
proof -
  have "\<lfloor>real (a + b) / real 2\<rfloor> = int ((a + b) div 2)"
    by (rule floor_divide_of_nat_eq)
  then show ?thesis by simp
qed

lemma sort_eq_Nil_iff [simp]: "sort xs = [] \<longleftrightarrow> xs = []"
  by (metis length_0_conv length_sort)

lemma py_int_median: "xs \<noteq> [] \<Longrightarrow> py_int (np_median xs) = Inr (median_int xs)"
  by (simp add: py_int_def np_median_def median_int_def Let_def odd_iff_mod_2_eq_one
      floor_half_sum)

lemma np_median_real: "xs \<noteq> [] \<Longrightarrow> np_median xs = Some (median_real xs)"
  by (simp add: np_median_def median_real_def Let_def odd_iff_mod_2_eq_one)

lemma trimmed_channel_eq:
  assumes "20 < length colors"
  shows "trimmed_channel colors (max 1 (length colors div 10)) ch
         = Inr (trimmed_mean (map (channel ch) colors))"
proof -
  let ?xs = "map (channel ch) colors"
  let ?trim = "max 1 (length colors div 10)"
  have len: "length (slice_trim (sort ?xs) ?trim) = length colors - 2 * ?trim"
    using assms by (simp add: slice_trim_def) 
  have "0 < length colors - 2 * ?trim" using assms by (auto simp: max_def)
  with len have ne: "slice_trim (sort ?xs) ?trim \<noteq> []" by auto
  have eq: "slice_trim (sort ?xs) ?trim = take (length ?xs - 2 * ?trim) (drop ?trim (sort ?xs))"
    by (simp add: slice_trim_def mult_2)
  show ?thesis
    unfolding trimmed_channel_def py_int_mean [OF ne]
    unfolding eq trimmed_mean_def Let_def by simp
qed

lemma median_channel_eq:
  "colors \<noteq> [] \<Longrightarrow> median_channel colors ch = Inr (median_int (map (channel ch) colors))"
  by (simp add: median_channel_def py_int_median)

lemma robust_color_eq:
  assumes "colors \<noteq> []"
  shows "robust_color colors =
     Inr (if 20 < length colors
          then (trimmed_mean (map (channel 0) colors), trimmed_mean (map (channel 1) colors),
                trimmed_mean (map (channel 2) colors))
          else (median_int (map (channel 0) colors), median_int (map (channel 1) colors),
                median_int (map (channel 2) colors)))"
proof (cases "20 < length colors")
  case True
  show ?thesis
    unfolding robust_color_def Let_def tuple3_def
    using True by (simp only: trimmed_channel_eq [OF True] if_True sum.case)
next
  case False
  then show ?thesis
    using assms by (simp add: robust_color_def Let_def tuple3_def median_channel_eq)
qed

lemma median_real_bounds:
  assumes "xs \<noteq> []" and "\<forall>x\<in>set xs. x \<le> b"
  shows "0 \<le> median_real xs \<and> median_real xs \<le> real b"
proof -
  let ?s = "sort xs"
  have n: "0 < length xs" using assms by simp
  have le: "\<And>i. i < length xs \<Longrightarrow> ?s ! i \<le> b"
    using assms(2) by (metis length_sort nth_mem set_sort)
  have a: "?s ! (length xs div 2) \<le> b" using n by (intro le) simp
  have c: "?s ! (length xs div 2 - 1) \<le> b" using n by (intro le) (simp add: less_imp_diff_less)
  from a c show ?thesis
    by (auto simp: median_real_def Let_def)
qed

text \<open>
  C10. \<open>sample_color_from_original\<close> never raises, whatever the mask and the
  erosion: when no pixel is left after the erosion and the fallback to the uneroded mask
  it returns the neutral gray \<open>(128, 128, 128)\<close> with opacity 1; otherwise the colour
  is the per-channel trimmed mean for more than 20 samples and the per-channel median
  otherwise, and the opacity is the median alpha divided by 255, a number in \<open>[0, 1]\<close>.
\<close>

theorem sample_color_total:
  "sample_color_from_original erode rgb alpha msk =
     (let px = sample_pixels erode msk in
      if px = [] then Inr ((128, 128, 128), 1)
      else if 20 < length px then
        Inr ((trimmed_mean (map (channel 0) (map rgb px)),
              trimmed_mean (map (channel 1) (map rgb px)),
              trimmed_mean (map (channel 2) (map rgb px))),
             median_real (map unat (map alpha px)) / 255)
      else
        Inr ((median_int (map (channel 0) (map rgb px)),
              median_int (map (channel 1) (map rgb px)),
              median_int (map (channel 2) (map rgb px))),
             median_real (map unat (map alpha px)) / 255))
   \<and> (\<forall>c a. sample_color_from_original erode rgb alpha msk = Inr (c, a) \<longrightarrow> 0 \<le> a \<and> a \<le> 1)"
proof -
  let ?px = "sample_pixels erode msk"
  have bnd: "\<forall>x\<in>set (map unat (map alpha ?px)). x \<le> 255"
  proof
    fix x assume "x \<in> set (map unat (map alpha ?px))"
    then obtain w :: u8 where "x = unat w" by auto
    moreover have "unat w < 2 ^ 8" using unsigned_less [of w, where 'a = nat] by simp
    ultimately show "x \<le> 255" by simp
  qed
  have main: "sample_color_from_original erode rgb alpha msk =
     (if ?px = [] then Inr ((128, 128, 128), 1)
      else if 20 < length ?px then
        Inr ((trimmed_mean (map (channel 0) (map rgb ?px)),
              trimmed_mean (map (channel 1) (map rgb ?px)),
              trimmed_mean (map (channel 2) (map rgb ?px))),
             median_real (map unat (map alpha ?px)) / 255)
      else
        Inr ((median_int (map (channel 0) (map rgb ?px)),
              median_int (map (channel 1) (map rgb ?px)),
              median_int (map (channel 2) (map rgb ?px))),
             median_real (map unat (map alpha ?px)) / 255))"
  proof -
    have unf: "sample_color_from_original erode rgb alpha msk =
       (if ?px = [] then Inr ((128, 128, 128), 1)
        else case robust_color (map rgb ?px) of Inl e \<Rightarrow> Inl e
         | Inr col \<Rightarrow>
           (case np_median (map unat (map alpha ?px)) of None \<Rightarrow> Inl NanValue
            | Some m \<Rightarrow> Inr (col, m / 255)))"
      unfolding sample_color_from_original_def sample_pixels_def Let_def length_0_conv ..
    show ?thesis
    proof (cases "?px = []")
      case True
      then show ?thesis unfolding unf by simp
    next
      case False
      then have ne: "map rgb ?px \<noteq> []" "map unat (map alpha ?px) \<noteq> []" by simp_all
      show ?thesis
        unfolding unf robust_color_eq [OF ne(1)] np_median_real [OF ne(2)]
        using False by simp
    qed
  qed
  have rng: "?px \<noteq> [] \<Longrightarrow> 0 \<le> median_real (map unat (map alpha ?px)) / 255
      \<and> median_real (map unat (map alpha ?px)) / 255 \<le> 1"
    using median_real_bounds [of "map unat (map alpha ?px)" 255] bnd by simp
  show ?thesis
    unfolding main Let_def using rng by auto
qed


theorem sample_color_total_witness:
  "sample_color_from_original (\<lambda>k i m. []) (\<lambda>p. (10, 20, 30)) (\<lambda>p. 255) [(0, 0), (1, 0), (2, 0)]
     = Inr ((10, 20, 30), 1)
   \<and> sample_color_from_original (\<lambda>k i m. []) (\<lambda>p. (10, 20, 30)) (\<lambda>p. 255) []
     = Inr ((128, 128, 128), 1)"
  using sample_color_total [of "\<lambda>k i m. []" "\<lambda>p. (10, 20, 30)" "\<lambda>p. 255" "[(0, 0), (1, 0), (2, 0)]"]
    sample_color_total [of "\<lambda>k i m. []" "\<lambda>p. (10, 20, 30)" "\<lambda>p. 255" "[]"]
  by (simp add: sample_pixels_def median_int_def median_real_def Let_def)

section \<open>Properties of region merging\<close>


lemma returns_Inr [simp]: "returns (Some (Inr v)) P \<longleftrightarrow> P v"
  by (simp add: returns_def)

lemma returns_Inl [simp]: "returns (Some (Inl e)) P"
  by (simp add: returns_def)

lemma returns_bind:
  assumes "returns m Q" and "\<And>v. Q v \<Longrightarrow> returns (f v) P"
  shows "returns (bind_res m f) P"
  using assms by (auto simp: returns_def bind_res_def split: option.splits sum.splits)

lemma returns_weaken: "returns m Q \<Longrightarrow> (\<And>v. Q v \<Longrightarrow> P v) \<Longrightarrow> returns m P"
  by (auto simp: returns_def)

lemma returns_get_at: "(\<And>v. i < length xs \<Longrightarrow> v = xs ! i \<Longrightarrow> P v) \<Longrightarrow> returns (get_at xs i) P"
  by (simp add: get_at_def)

lemma bind_res_simps [simp]:
  "bind_res (Some (Inr v)) f = f v"
  "bind_res (Some (Inl e)) f = Some (Inl e)"
  "bind_res None f = None"
  by (simp_all add: bind_res_def)

lemma returns_bind_get_at:
  "(\<And>v. i < length xs \<Longrightarrow> v = xs ! i \<Longrightarrow> returns (f v) P) \<Longrightarrow> returns (bind_res (get_at xs i) f) P"
  by (simp add: get_at_def)

lemma returns_if:
  "(c \<Longrightarrow> returns a P) \<Longrightarrow> (\<not> c \<Longrightarrow> returns b P) \<Longrightarrow> returns (if c then a else b) P"
  by simp

lemma returns_for:
  assumes "I s" and "\<And>x s. x \<in> set xs \<Longrightarrow> I s \<Longrightarrow> returns (f x s) I"
  shows "returns (for_res xs f s) I"
  using assms
proof (induction xs arbitrary: s)
  case Nil
  then show ?case by simp
next
  case (Cons x xs)
  show ?case
    unfolding for_res.simps
  proof (rule returns_bind [where Q = I])
    show "returns (f x s) I" using Cons.prems by simp
  next
    fix v assume "I v"
    then show "returns (for_res xs f v) I"
      using Cons.prems(2) by (intro Cons.IH) simp_all
  qed
qed

lemma update_in_range:
  assumes "\<forall>y<length p. p ! y < length p" and "z < length p" and "y < length p"
  shows "p[x := z] ! y < length p"
  using assms by (cases "y = x") simp_all

lemma roots_finite [simp]: "finite (roots p)"
  by (simp add: roots_def)

lemma roots_card_le: "card (roots p) \<le> length p"
proof -
  have "roots p \<subseteq> {..<length p}" by (auto simp: roots_def)
  then have "card (roots p) \<le> card {..<length p}" by (intro card_mono) auto
  then show ?thesis by simp
qed

lemma uf_inv_init: "uf_inv [0..<n]"
proof -
  have "prel [0..<n] = {}" by (auto simp: prel_def)
  then show ?thesis by (simp add: uf_inv_def)
qed

lemma find_uf_terminates:
  assumes "wf R" and "trans R"
  shows "prel p \<subseteq> R \<Longrightarrow> (\<forall>y<length p. p ! y < length p) \<Longrightarrow>
     returns (find_uf p x) (\<lambda>(p', r). length p' = length p \<and> prel p' \<subseteq> R
        \<and> (\<forall>y<length p'. p' ! y < length p') \<and> roots p' = roots p \<and> r \<in> roots p')"
  using assms(1)
proof (induction x arbitrary: p rule: wf_induct_rule)
  case (less x)
  show ?case
  proof (cases "length p \<le> x")
    case True
    then show ?thesis by (subst find_uf.simps) simp
  next
    case inr: False
    show ?thesis
    proof (cases "p ! x = x")
      case True
      then show ?thesis using inr less.prems
        by (subst find_uf.simps) (simp add: roots_def)
    next
      case False
      let ?y = "p ! x"
      let ?z = "p ! ?y"
      let ?p' = "p[x := ?z]"
      have y: "?y < length p" using inr less.prems by simp
      then have z: "?z < length p" using less.prems by simp
      have yx: "(?y, x) \<in> R" using False inr less.prems(1) by (auto simp: prel_def)
      have zx: "(?z, x) \<in> R"
      proof (cases "?z = ?y")
        case True
        then show ?thesis using yx by simp
      next
        case False
        then have "(?z, ?y) \<in> R" using y less.prems(1) by (auto simp: prel_def)
        with yx show ?thesis using \<open>trans R\<close> by (meson transD)
      qed
      have zneq: "?z \<noteq> x" using zx \<open>wf R\<close> by auto
      have sub: "prel ?p' \<subseteq> R"
      proof
        fix e assume "e \<in> prel ?p'"
        then obtain w where w: "e = (?p' ! w, w)" "w < length p" "?p' ! w \<noteq> w"
          by (auto simp: prel_def)
        show "e \<in> R"
        proof (cases "w = x")
          case True
          then show ?thesis using w zx inr by simp
        next
          case False
          then have "e \<in> prel p" using w by (auto simp: prel_def)
          then show ?thesis using less.prems(1) by auto
        qed
      qed
      have rng: "\<forall>y<length ?p'. ?p' ! y < length ?p'"
        using less.prems(2) z by (simp add: update_in_range)
      have rts: "roots ?p' = roots p"
        using False zneq inr by (auto simp: roots_def nth_list_update)
      have step: "find_uf p x = find_uf ?p' ?z"
        using inr False y by (subst find_uf.simps) simp
      have "returns (find_uf ?p' ?z) (\<lambda>(p'', r). length p'' = length ?p' \<and> prel p'' \<subseteq> R
        \<and> (\<forall>y<length p''. p'' ! y < length p'') \<and> roots p'' = roots ?p' \<and> r \<in> roots p'')"
        by (rule less.IH [OF zx sub rng])
      then show ?thesis
        unfolding step by (rule returns_weaken) (auto simp: rts)
    qed
  qed
qed

lemma find_uf_inv:
  assumes "uf_inv p"
  shows "returns (find_uf p x) (\<lambda>(p', r). length p' = length p \<and> uf_inv p'
        \<and> roots p' = roots p \<and> r \<in> roots p')"
proof -
  let ?R = "(prel p)\<^sup>+"
  have wf: "wf ?R" using assms by (simp add: uf_inv_def wf_trancl)
  have "returns (find_uf p x) (\<lambda>(p', r). length p' = length p \<and> prel p' \<subseteq> ?R
        \<and> (\<forall>y<length p'. p' ! y < length p') \<and> roots p' = roots p \<and> r \<in> roots p')"
    using assms by (intro find_uf_terminates [OF wf]) (auto simp: uf_inv_def)
  then show ?thesis
    by (rule returns_weaken) (auto simp: uf_inv_def intro: wf_subset [OF wf])
qed

lemma find_uf_root: "x < length p \<Longrightarrow> p ! x = x \<Longrightarrow> find_uf p x = Some (Inr (p, x))"
  by (subst find_uf.simps) simp

lemma uf_inv_link:
  assumes "uf_inv p" and "ra \<in> roots p" and "rb \<in> roots p" and "ra \<noteq> rb"
  shows "uf_inv (p[rb := ra])" and "roots (p[rb := ra]) = roots p - {rb}"
proof -
  have ra: "ra < length p" "p ! ra = ra" and rb: "rb < length p" "p ! rb = rb"
    using assms by (auto simp: roots_def)
  have prel_eq: "prel (p[rb := ra]) = insert (ra, rb) (prel p)"
    using ra rb assms(4) by (auto simp: prel_def nth_list_update split: if_splits)
  have "(rb, ra) \<notin> (prel p)\<^sup>*"
  proof
    assume "(rb, ra) \<in> (prel p)\<^sup>*"
    then show False
    proof (cases rule: rtranclE)
      case base
      then show ?thesis using assms(4) by simp
    next
      case (step y)
      then show ?thesis using ra by (auto simp: prel_def)
    qed
  qed
  then have "wf (prel (p[rb := ra]))"
    using assms(1) by (simp add: prel_eq wf_insert uf_inv_def)
  moreover have "\<forall>x<length (p[rb := ra]). p[rb := ra] ! x < length (p[rb := ra])"
    using assms(1) ra by (simp add: uf_inv_def update_in_range)
  ultimately show "uf_inv (p[rb := ra])" by (simp add: uf_inv_def)
  show "roots (p[rb := ra]) = roots p - {rb}"
    using ra rb assms(4) by (auto simp: roots_def nth_list_update)
qed


lemma union_stats_parent:
  "returns (union_stats st ra rb tot) (\<lambda>st'. parent st' = parent st \<and> counts st' = counts st)"
  by (auto simp: union_stats_def returns_def bind_res_def get_at_def Let_def)

lemma union_uf_inv:
  assumes "uf_inv (parent st)"
  shows "returns (union_uf st a b) (\<lambda>st'. length (parent st') = length (parent st)
           \<and> uf_inv (parent st') \<and> roots (parent st') \<subseteq> roots (parent st))"
  unfolding union_uf_def
proof (rule returns_bind [OF find_uf_inv [OF assms]], clarify)
  fix p1 ra
  assume p1: "length p1 = length (parent st)" "uf_inv p1" "roots p1 = roots (parent st)"
    and ra: "ra \<in> roots p1"
  show "returns (bind_res (find_uf p1 b) (\<lambda>(p, rb).
     let st = st\<lparr>parent := p\<rparr> in
     if ra = rb then Some (Inr st)
     else
       bind_res (get_at (counts st) ra) (\<lambda>ca. bind_res (get_at (counts st) rb) (\<lambda>cb.
       let (ra, rb) = (if ca < cb then (rb, ra) else (ra, rb));
           st = st\<lparr>parent := (parent st)[rb := ra]\<rparr>;
           tot = counts st ! ra + counts st ! rb in
       bind_res (union_stats st ra rb tot) (\<lambda>st.
       Some (Inr (st\<lparr>counts := (counts st)[ra := tot]\<rparr>)))))))
     (\<lambda>st'. length (parent st') = length (parent st)
           \<and> uf_inv (parent st') \<and> roots (parent st') \<subseteq> roots (parent st))"
  proof (rule returns_bind [OF find_uf_inv [OF p1(2)]], clarify)
    fix p2 rb
    assume p2: "length p2 = length p1" "uf_inv p2" "roots p2 = roots p1" and rb: "rb \<in> roots p2"
    have ra2: "ra \<in> roots p2" using ra p2 by simp
    have link: "\<And>x y. x \<in> roots p2 \<Longrightarrow> y \<in> roots p2 \<Longrightarrow> x \<noteq> y \<Longrightarrow>
        returns (bind_res (union_stats (st\<lparr>parent := p2[y := x]\<rparr>) x y t) (\<lambda>st.
           Some (Inr (st\<lparr>counts := (counts st)[x := t]\<rparr>))))
         (\<lambda>st'. length (parent st') = length (parent st)
           \<and> uf_inv (parent st') \<and> roots (parent st') \<subseteq> roots (parent st))" for t
      apply (rule returns_bind [OF union_stats_parent])
      using p1 p2 uf_inv_link [of p2] by auto
    show "returns (let st = st\<lparr>parent := p2\<rparr> in
     if ra = rb then Some (Inr st)
     else
       bind_res (get_at (counts st) ra) (\<lambda>ca. bind_res (get_at (counts st) rb) (\<lambda>cb.
       let (ra, rb) = (if ca < cb then (rb, ra) else (ra, rb));
           st = st\<lparr>parent := (parent st)[rb := ra]\<rparr>;
           tot = counts st ! ra + counts st ! rb in
       bind_res (union_stats st ra rb tot) (\<lambda>st.
       Some (Inr (st\<lparr>counts := (counts st)[ra := tot]\<rparr>))))))
     (\<lambda>st'. length (parent st') = length (parent st)
           \<and> uf_inv (parent st') \<and> roots (parent st') \<subseteq> roots (parent st))"
    proof (cases "ra = rb")
      case True
      then show ?thesis using p1 p2 by simp
    next
      case False
      show ?thesis
        unfolding Let_def using False
        apply simp
        apply (rule returns_bind_get_at)
        apply (rule returns_bind_get_at)
        using link [OF ra2 rb False] link [OF rb ra2 False [symmetric]]
        by (auto split: if_splits)
    qed
  qed
qed

lemma union_uf_roots:
  assumes "a \<in> roots (parent st)" and "b \<in> roots (parent st)" and "a \<noteq> b"
    and "union_uf st a b = Some (Inr st')"
  shows "roots (parent st') \<subset> roots (parent st)"
proof -
  have a: "a < length (parent st)" "parent st ! a = a"
    and b: "b < length (parent st)" "parent st ! b = b"
    using assms by (auto simp: roots_def)
  have r: "\<And>x y. x \<in> roots (parent st) \<Longrightarrow> y \<in> roots (parent st) \<Longrightarrow> x \<noteq> y \<Longrightarrow>
      roots ((parent st)[y := x]) \<subset> roots (parent st)"
    by (auto simp: roots_def nth_list_update)
  have "returns (union_uf st a b) (\<lambda>st'. roots (parent st') \<subset> roots (parent st))"
    using assms(3)
    apply (simp add: union_uf_def find_uf_root [OF a] find_uf_root [OF b] Let_def)
    apply (rule returns_bind_get_at)
    apply (rule returns_bind_get_at)
    apply (simp split: if_splits)
    apply (intro conjI impI)
     apply (rule returns_bind [OF union_stats_parent])
     using r [OF assms(2) assms(1)] assms(3) apply simp
    apply (rule returns_bind [OF union_stats_parent])
    using r [OF assms(1) assms(2)] assms(3) apply simp
    done
  with assms(4) show ?thesis by (simp add: returns_def)
qed






lemma union_uf_step:
  assumes "uf_inv (parent st)" and "rb \<in> roots (parent st)" and "ra \<noteq> rb"
    and "roots (parent st) \<subseteq> Rs" and "ra \<in> roots (parent st) \<or> roots (parent st) \<subset> Rs"
  shows "returns (union_uf st ra rb) (\<lambda>st'. length (parent st') = length (parent st)
           \<and> uf_inv (parent st') \<and> roots (parent st') \<subset> Rs)"
proof -
  have "returns (union_uf st ra rb) (\<lambda>st'. length (parent st') = length (parent st)
           \<and> uf_inv (parent st') \<and> roots (parent st') \<subseteq> roots (parent st))"
    by (rule union_uf_inv [OF assms(1)])
  then obtain r where r: "union_uf st ra rb = Some r"
    and post: "\<And>st'. r = Inr st' \<Longrightarrow> length (parent st') = length (parent st)
           \<and> uf_inv (parent st') \<and> roots (parent st') \<subseteq> roots (parent st)"
    by (auto simp: returns_def)
  have "roots (parent st') \<subset> Rs" if "r = Inr st'" for st'
  proof (cases "ra \<in> roots (parent st)")
    case True
    then have "roots (parent st') \<subset> roots (parent st)"
      using union_uf_roots [OF True assms(2) assms(3)] r that by simp
    then show ?thesis using assms(4) by auto
  next
    case False
    then show ?thesis using assms(5) post [OF that] by auto
  qed
  then show ?thesis using r post by (auto simp: returns_def)
qed

lemma scan_neighbor_inv:
  assumes "scan_inv Rs n ra s"
  shows "returns (scan_neighbor ct dt ra b s) (scan_inv Rs n ra)"
proof -
  obtain st changed where s: "s = (st, changed)" by (cases s)
  have inv: "length (parent st) = n" "uf_inv (parent st)" "roots (parent st) \<subseteq> Rs"
    "changed \<longrightarrow> roots (parent st) \<subset> Rs" "ra \<in> roots (parent st) \<or> roots (parent st) \<subset> Rs"
    using assms by (auto simp: s scan_inv_def pass_inv_def)
  show ?thesis
    unfolding scan_neighbor_def s prod.case
  proof (rule returns_bind [OF find_uf_inv [OF inv(2)]], clarify)
    fix p rb
    assume p: "length p = length (parent st)" "uf_inv p" "roots p = roots (parent st)"
      and rb: "rb \<in> roots p"
    let ?st = "st\<lparr>parent := p\<rparr>"
    have keep: "scan_inv Rs n ra (?st, changed)"
      using inv p by (simp add: scan_inv_def pass_inv_def)
    have un: "ra \<noteq> rb \<Longrightarrow> returns (bind_res (union_uf ?st ra rb) (\<lambda>st. Some (Inr (st, True))))
       (scan_inv Rs n ra)"
      apply (rule returns_bind [OF union_uf_step [where Rs = Rs]])
      using inv p rb by (auto simp: scan_inv_def pass_inv_def)
    show "returns (let st = st\<lparr>parent := p\<rparr> in
      if ra = rb then Some (Inr (st, changed))
      else
        bind_res (get_at (mean_alpha st) rb) (\<lambda>al_b.
        if al_b < 200 then Some (Inr (st, changed))
        else
          bind_res (get_at (counts st) rb) (\<lambda>c_b.
          if c_b = 0 then Some (Inr (st, changed))
          else
            bind_res (get_at (mean_lab st) ra) (\<lambda>lab_a. bind_res (get_at (mean_lab st) rb) (\<lambda>lab_b.
            let lab_dist = vnorm (vsub lab_a lab_b) in
            bind_res (get_at (brightness st) ra) (\<lambda>br_a. bind_res (get_at (brightness st) rb) (\<lambda>br_b.
            let threshold = merge_threshold ct dt br_a br_b in
            if lab_dist < threshold
            then bind_res (union_uf st ra rb) (\<lambda>st. Some (Inr (st, True)))
            else Some (Inr (st, changed))))))))) (scan_inv Rs n ra)"
    proof (cases "ra = rb")
      case True
      then show ?thesis using keep by (simp add: Let_def)
    next
      case False
      show ?thesis
        unfolding Let_def
        apply (simp only: False if_False)
        apply (intro returns_if returns_bind_get_at)
        using un [OF False] keep by simp_all
    qed
  qed
qed


lemma scan_region_inv:
  assumes "pass_inv Rs n s"
  shows "returns (scan_region ct dt adj a s) (pass_inv Rs n)"
proof -
  obtain st changed where s: "s = (st, changed)" by (cases s)
  have inv: "length (parent st) = n" "uf_inv (parent st)" "roots (parent st) \<subseteq> Rs"
    "changed \<longrightarrow> roots (parent st) \<subset> Rs"
    using assms by (auto simp: s pass_inv_def)
  show ?thesis
    unfolding scan_region_def s prod.case
  proof (rule returns_bind [OF find_uf_inv [OF inv(2)]], clarify)
    fix p ra
    assume p: "length p = length (parent st)" "uf_inv p" "roots p = roots (parent st)"
      and ra: "ra \<in> roots p"
    let ?st = "st\<lparr>parent := p\<rparr>"
    have keep: "pass_inv Rs n (?st, changed)"
      using inv p by (simp add: pass_inv_def)
    have start: "scan_inv Rs n ra (?st, changed)"
      using keep ra by (simp add: scan_inv_def)
    have loop: "returns (for_res (adj a) (scan_neighbor ct dt ra) (?st, changed)) (pass_inv Rs n)"
      by (rule returns_weaken [OF returns_for [where I = "scan_inv Rs n ra", OF start]])
        (auto intro: scan_neighbor_inv simp: scan_inv_def)
    show "returns (let st = st\<lparr>parent := p\<rparr> in
      bind_res (get_at (mean_alpha st) ra) (\<lambda>al_a.
      if al_a < 200 then Some (Inr (st, changed))
      else
        bind_res (get_at (counts st) ra) (\<lambda>c_a.
        if c_a = 0 then Some (Inr (st, changed))
        else for_res (adj a) (scan_neighbor ct dt ra) (st, changed)))) (pass_inv Rs n)"
      unfolding Let_def
      apply (intro returns_if returns_bind_get_at)
      using keep loop by simp_all
  qed
qed

lemma merge_pass_inv:
  assumes "uf_inv (parent st)"
  shows "returns (merge_pass ct dt adj n st)
     (\<lambda>(st', changed). length (parent st') = length (parent st) \<and> uf_inv (parent st')
        \<and> roots (parent st') \<subseteq> roots (parent st)
        \<and> (changed \<longrightarrow> card (roots (parent st')) < card (roots (parent st))))"
proof -
  let ?I = "pass_inv (roots (parent st)) (length (parent st))"
  have "?I (st, False)" using assms by (simp add: pass_inv_def)
  then have "returns (merge_pass ct dt adj n st) ?I"
    unfolding merge_pass_def by (rule returns_for) (rule scan_region_inv)
  then show ?thesis
    by (rule returns_weaken) (auto simp: pass_inv_def intro: psubset_card_mono)
qed

lemma merge_passes_bound:
  assumes "uf_inv (parent st)"
  shows "returns (merge_passes ct dt adj n st k)
     (\<lambda>(st', k'). k < k' \<and> k' \<le> k + card (roots (parent st)) + 1)"
  using assms
proof (induction "card (roots (parent st))" arbitrary: st k rule: less_induct)
  case less
  from merge_pass_inv [OF less.prems, of ct dt adj n]
  obtain r where r: "merge_pass ct dt adj n st = Some r"
    and post: "\<And>st' changed. r = Inr (st', changed) \<Longrightarrow> uf_inv (parent st')
        \<and> (changed \<longrightarrow> card (roots (parent st')) < card (roots (parent st)))"
    by (auto simp: returns_def)
  show ?case
  proof (cases r)
    case (Inl e)
    then show ?thesis using r by (subst merge_passes.simps) simp
  next
    case (Inr v)
    obtain st' changed where v: "v = (st', changed)" by (cases v)
    show ?thesis
    proof (cases changed)
      case False
      then show ?thesis using r Inr v by (subst merge_passes.simps) simp
    next
      case True
      have lt: "card (roots (parent st')) < card (roots (parent st))"
        and inv': "uf_inv (parent st')"
        using post [of st' changed] Inr v True by auto
      have step: "merge_passes ct dt adj n st k = merge_passes ct dt adj n st' (k + 1)"
        using r Inr v True by (subst merge_passes.simps) simp
      show ?thesis
        unfolding step
        by (rule returns_weaken [OF less.hyps [OF lt inv']]) (use lt in auto)
    qed
  qed
qed

text \<open>
  C6. The merge-pass loop of \<open>merge_regions\<close> ends for every input: the call returns,
  normally or by raising \<open>IndexError\<close> on an index outside the arrays, and a normal
  return comes after at least one and at most \<open>n_labels + 1\<close> passes. The reason is the
  second part: on a union-find forest, a pass returns, leaves a forest, and whenever it
  sets the \<open>changed\<close> flag it has merged two distinct roots, so that the number of
  roots is strictly smaller after the pass.
\<close>

theorem merge_loop_terminates:
  "(\<exists>r. merge_loop ct dt adj n cnts m_rgb m_lab m_alpha bright = Some r
       \<and> (\<forall>st passes. r = Inr (st, passes) \<longrightarrow> 1 \<le> passes \<and> passes \<le> n + 1))
   \<and> (\<forall>st. uf_inv (parent st) \<longrightarrow>
        (\<exists>r. merge_pass ct dt adj n st = Some r
           \<and> (\<forall>st' changed. r = Inr (st', changed) \<longrightarrow> uf_inv (parent st')
                \<and> (changed \<longrightarrow> card (roots (parent st')) < card (roots (parent st))))))"
proof
  let ?st = "\<lparr>parent = [0..<n], counts = cnts, mean_rgb = m_rgb, mean_lab = m_lab,
        mean_alpha = m_alpha, brightness = bright\<rparr>"
  have "uf_inv (parent ?st)" by (simp add: uf_inv_init)
  from merge_passes_bound [OF this, of ct dt adj n 0]
  have "returns (merge_loop ct dt adj n cnts m_rgb m_lab m_alpha bright)
     (\<lambda>(st', k'). 0 < k' \<and> k' \<le> card (roots [0..<n]) + 1)"
    by (simp add: merge_loop_def)
  moreover have "card (roots [0..<n]) \<le> n" using roots_card_le [of "[0..<n]"] by simp
  ultimately show "\<exists>r. merge_loop ct dt adj n cnts m_rgb m_lab m_alpha bright = Some r
       \<and> (\<forall>st passes. r = Inr (st, passes) \<longrightarrow> 1 \<le> passes \<and> passes \<le> n + 1)"
    by (fastforce simp: returns_def)
next
  show "\<forall>st. uf_inv (parent st) \<longrightarrow>
        (\<exists>r. merge_pass ct dt adj n st = Some r
           \<and> (\<forall>st' changed. r = Inr (st', changed) \<longrightarrow> uf_inv (parent st')
                \<and> (changed \<longrightarrow> card (roots (parent st')) < card (roots (parent st)))))"
    using merge_pass_inv [of _ ct dt adj n] by (fastforce simp: returns_def)
qed



lemma weighted_avg3_eq:
  "0 < c1 + c2 \<Longrightarrow>
   vadd (vscale u (real c1 / (real c1 + real c2))) (vscale v (real c2 / (real c1 + real c2)))
     = weighted_avg3 c1 u c2 v"
  by (cases u; cases v) (simp add: weighted_avg_def add_divide_distrib mult.commute)

lemma weighted_avg_eq:
  "0 < c1 + c2 \<Longrightarrow> x * real c1 / (real c1 + real c2) + y * real c2 / (real c1 + real c2)
     = weighted_avg c1 x c2 y"
  by (simp add: weighted_avg_def add_divide_distrib mult.commute)

lemma union_link_stats:
  assumes "w < n" and "l < n" and "w \<noteq> l"
    and "length (counts st) = n" and "length (mean_rgb st) = n"
    and "length (mean_lab st) = n" and "length (mean_alpha st) = n" and "length (brightness st) = n"
    and "0 < counts st ! w + counts st ! l"
  shows "union_stats st w l (counts st ! w + counts st ! l) = Some (Inr
     (st\<lparr>mean_rgb := (mean_rgb st)[w := weighted_avg3 (counts st ! w) (mean_rgb st ! w) (counts st ! l) (mean_rgb st ! l)],
         mean_lab := (mean_lab st)[w := weighted_avg3 (counts st ! w) (mean_lab st ! w) (counts st ! l) (mean_lab st ! l)],
         mean_alpha := (mean_alpha st)[w := weighted_avg (counts st ! w) (mean_alpha st ! w) (counts st ! l) (mean_alpha st ! l)],
         brightness := (brightness st)[w := fst (weighted_avg3 (counts st ! w) (mean_lab st ! w) (counts st ! l) (mean_lab st ! l))]\<rparr>))"
  using assms
  by (simp add: union_stats_def get_at_def Let_def weighted_avg3_eq weighted_avg_eq
       del: weighted_avg3.simps vadd.simps vscale.simps)

text \<open>
  C5. \<open>union\<close> on two distinct roots \<open>a\<close> and \<open>b\<close> whose pixel counts are not both zero:
  the root with the larger count becomes the root of both (\<open>a\<close> on a tie); its mean RGB,
  mean LAB and mean alpha become the averages of the two regions' values weighted by
  their counts before the union, its brightness the L channel of the new mean LAB, and
  its count the sum of the two counts.
\<close>

theorem union_weighted_average:
  assumes "a < n" and "b < n" and "parent st ! a = a" and "parent st ! b = b" and "a \<noteq> b"
    and "length (parent st) = n" and "length (counts st) = n" and "length (mean_rgb st) = n"
    and "length (mean_lab st) = n" and "length (mean_alpha st) = n" and "length (brightness st) = n"
    and "0 < counts st ! a + counts st ! b"
  shows "\<exists>st'. union_uf st a b = Some (Inr st') \<and>
     (let w = (if counts st ! a < counts st ! b then b else a);
          l = (if counts st ! a < counts st ! b then a else b);
          cw = counts st ! w; cl = counts st ! l in
      cl \<le> cw \<and> parent st' ! w = w \<and> parent st' ! l = w
      \<and> counts st' ! w = cw + cl
      \<and> mean_rgb st' ! w = weighted_avg3 cw (mean_rgb st ! w) cl (mean_rgb st ! l)
      \<and> mean_lab st' ! w = weighted_avg3 cw (mean_lab st ! w) cl (mean_lab st ! l)
      \<and> mean_alpha st' ! w = weighted_avg cw (mean_alpha st ! w) cl (mean_alpha st ! l)
      \<and> brightness st' ! w = fst (mean_lab st' ! w))"
proof -
  have fa: "find_uf (parent st) a = Some (Inr (parent st, a))"
    and fb: "find_uf (parent st) b = Some (Inr (parent st, b))"
    using assms by (simp_all add: find_uf_root)
  show ?thesis
  proof (cases "counts st ! a < counts st ! b")
    case True
    let ?st = "st\<lparr>parent := (parent st)[a := b]\<rparr>"
    have "union_stats ?st b a (counts ?st ! b + counts ?st ! a) = Some (Inr
     (?st\<lparr>mean_rgb := (mean_rgb ?st)[b := weighted_avg3 (counts ?st ! b) (mean_rgb ?st ! b) (counts ?st ! a) (mean_rgb ?st ! a)],
         mean_lab := (mean_lab ?st)[b := weighted_avg3 (counts ?st ! b) (mean_lab ?st ! b) (counts ?st ! a) (mean_lab ?st ! a)],
         mean_alpha := (mean_alpha ?st)[b := weighted_avg (counts ?st ! b) (mean_alpha ?st ! b) (counts ?st ! a) (mean_alpha ?st ! a)],
         brightness := (brightness ?st)[b := fst (weighted_avg3 (counts ?st ! b) (mean_lab ?st ! b) (counts ?st ! a) (mean_lab ?st ! a))]\<rparr>))"
      using assms by (intro union_link_stats [where n = n]) (simp_all add: add.commute)
    then show ?thesis
      using True assms by (simp add: union_uf_def fa fb get_at_def Let_def)
  next
    case False
    let ?st = "st\<lparr>parent := (parent st)[b := a]\<rparr>"
    have "union_stats ?st a b (counts ?st ! a + counts ?st ! b) = Some (Inr
     (?st\<lparr>mean_rgb := (mean_rgb ?st)[a := weighted_avg3 (counts ?st ! a) (mean_rgb ?st ! a) (counts ?st ! b) (mean_rgb ?st ! b)],
         mean_lab := (mean_lab ?st)[a := weighted_avg3 (counts ?st ! a) (mean_lab ?st ! a) (counts ?st ! b) (mean_lab ?st ! b)],
         mean_alpha := (mean_alpha ?st)[a := weighted_avg (counts ?st ! a) (mean_alpha ?st ! a) (counts ?st ! b) (mean_alpha ?st ! b)],
         brightness := (brightness ?st)[a := fst (weighted_avg3 (counts ?st ! a) (mean_lab ?st ! a) (counts ?st ! b) (mean_lab ?st ! b))]\<rparr>))"
      using assms by (intro union_link_stats [where n = n]) simp_all
    then show ?thesis
      using False assms by (simp add: union_uf_def fa fb get_at_def Let_def)
  qed
qed


theorem union_weighted_average_witness:
  "\<exists>st'. union_uf st2 0 1 = Some (Inr st') \<and> parent st' = [0, 0] \<and> counts st' ! 0 = 6
     \<and> mean_rgb st' ! 0 = (105, 115, 125) \<and> mean_lab st' ! 0 = (52, 2, 4)
     \<and> mean_alpha st' ! 0 = 255 \<and> brightness st' ! 0 = 52"
  using union_weighted_average [of 0 2 1 st2]
  by (simp add: st2_def union_uf_def find_uf.simps get_at_def union_stats_def Let_def)

lemma vnorm_less_iff: "0 \<le> t \<Longrightarrow> vnorm (x, y, z) < t \<longleftrightarrow> x\<^sup>2 + y\<^sup>2 + z\<^sup>2 < t\<^sup>2"
proof -
  have "sqrt (x\<^sup>2 + y\<^sup>2 + z\<^sup>2) < sqrt (t\<^sup>2) \<longleftrightarrow> x\<^sup>2 + y\<^sup>2 + z\<^sup>2 < t\<^sup>2"
    by (rule real_sqrt_less_iff)
  then show ?thesis if "0 \<le> t" using that by simp
qed

lemmas merge_eval =
  merge_pass_def upt_rec scan_region_def scan_neighbor_def union_uf_def find_uf.simps
  get_at_def union_stats_def Let_def merge_threshold_def vnorm_less_iff

theorem merge_loop_terminates_witness:
  "(\<exists>st. merge_loop 18 40 adj2 2 [3, 3] [(100, 110, 120), (110, 120, 130)]
          [(50, 2, 4), (54, 2, 4)] [255, 255] [50, 54] = Some (Inr (st, 2)) \<and> parent st = [0, 0])
   \<and> (\<exists>st'. merge_pass 18 40 adj2 2 st2 = Some (Inr (st', True))
          \<and> card (roots (parent st')) < card (roots (parent st2)))"
proof -
  have inv: "uf_inv (parent st2)" using uf_inv_init [of 2] by (simp add: st2_def upt_rec)
  have pass: "\<exists>st'. merge_pass 18 40 adj2 2 st2 = Some (Inr (st', True))"
    by (simp add: st2_def adj2_def merge_eval del: vnorm.simps)
  have loop: "\<exists>st. merge_loop 18 40 adj2 2 [3, 3] [(100, 110, 120), (110, 120, 130)]
          [(50, 2, 4), (54, 2, 4)] [255, 255] [50, 54] = Some (Inr (st, 2)) \<and> parent st = [0, 0]"
    by (simp add: merge_loop_def merge_passes.simps adj2_def merge_eval del: vnorm.simps)
  from merge_loop_terminates [of 18 40 adj2 2 "[3, 3]" "[(100, 110, 120), (110, 120, 130)]"
      "[(50, 2, 4), (54, 2, 4)]" "[255, 255]" "[50, 54]"] inv pass loop
  show ?thesis by fastforce
qed

text \<open>
  C3 (stale root). Three superpixels, all bright and opaque; 0 touches 1 and 2. Base
  threshold 18, dark cutoff 40. The scan of region 0 first merges 0 into 1 (LAB distance
  17); the new root 1 has mean L \<open>8770/101\<close>, at distance above 33 from region 2. The
  scan goes on with the old root 0, whose stale mean is at distance 17 from region 2,
  and so unions the live regions 1 and 2 although their mean LAB colours are further
  apart than the threshold. The loop ends with all three superpixels in one region.
\<close>

theorem merge_stale_root_example:
  "\<exists>st1 st2 st.
     union_uf st3 0 1 = Some (Inr st1)
     \<and> parent st1 = [1, 1, 2] \<and> mean_alpha st1 ! 1 = 255 \<and> mean_alpha st1 ! 2 = 255
     \<and> counts st1 ! 1 = 101 \<and> counts st1 ! 2 = 1
     \<and> \<not> vnorm (vsub (mean_lab st1 ! 1) (mean_lab st1 ! 2))
           < merge_threshold 18 40 (brightness st1 ! 1) (brightness st1 ! 2)
     \<and> scan_neighbor 18 40 0 2 (st1, True) = Some (Inr (st2, True))
     \<and> parent st2 = [1, 1, 1]
     \<and> merge_loop 18 40 adj3 3 (counts st3) (mean_rgb st3) (mean_lab st3) (mean_alpha st3)
          (brightness st3) = Some (Inr (st, 2))
     \<and> parent st = [1, 1, 1]"
  by (simp add: merge_loop_def merge_passes.simps st3_def adj3_def merge_eval power2_eq_square
      del: vnorm.simps)


section \<open>Properties of gradient validation\<close>


lemma clip_unit: "clip v 0 1 = max 0 (min 1 v)"
  by (simp add: clip_def max_def min_def)

lemma map2_map_same: "map2 f (map g xs) (map h xs) = map (\<lambda>x. f (g x) (h x)) xs"
  by (induction xs) simp_all

lemma mse_solid_eq:
  "mean_real (map (\<lambda>a. sq_err a c) (map (\<lambda>p. to_float3 (rgb p)) msk)) = predicted_mse rgb msk (\<lambda>p. c)"
  by (simp add: mean_real_def predicted_mse_def comp_def)

lemma mse_gradient_eq:
  "mean_real (map2 sq_err (map (\<lambda>p. to_float3 (rgb p)) msk)
      (map (\<lambda>t. vadd (color_vec (color_start g)) (vscale (vsub (color_vec (color_end g)) (color_vec (color_start g))) t))
        (map (\<lambda>(x, y). clip (((real x - gx1 g) * (gx2 g - gx1 g) + (real y - gy1 g) * (gy2 g - gy1 g))
                / ((gx2 g - gx1 g) * (gx2 g - gx1 g) + (gy2 g - gy1 g) * (gy2 g - gy1 g))) 0 1) msk)))
   = predicted_mse rgb msk (gradient_fill g)"
proof -
  have "map2 sq_err (map (\<lambda>p. to_float3 (rgb p)) msk)
      (map (\<lambda>t. vadd (color_vec (color_start g)) (vscale (vsub (color_vec (color_end g)) (color_vec (color_start g))) t))
        (map (\<lambda>(x, y). clip (((real x - gx1 g) * (gx2 g - gx1 g) + (real y - gy1 g) * (gy2 g - gy1 g))
                / ((gx2 g - gx1 g) * (gx2 g - gx1 g) + (gy2 g - gy1 g) * (gy2 g - gy1 g))) 0 1) msk))
    = map (\<lambda>p. sq_err (to_float3 (rgb p)) (gradient_fill g p)) msk"
    unfolding map_map map2_map_same
    by (rule map_cong [OF refl])
      (simp add: gradient_fill_def axis_length_sq_def clip_unit power2_eq_square split_beta Let_def)
  then show ?thesis by (simp add: mean_real_def predicted_mse_def)
qed

text \<open>
  C2. \<open>verify_gradient_improvement\<close> returns the candidate gradient exactly when the
  mask has at least 10 pixels, the gradient axis is not degenerate (squared length at
  least 1) and the mean squared error the gradient predicts over the masked pixels is
  strictly below 0.85 times that of the solid fill; in every other case it returns
  nothing. So for a mask of at least 10 pixels and a non-degenerate axis the gradient is
  accepted if and only if its predicted error is below 0.85 times the solid one, and a
  gradient whose predicted error exceeds that bound is never accepted.
\<close>

theorem verify_gradient_threshold:
  "verify_gradient_improvement rgb msk solid_color g =
     (if 10 \<le> length msk \<and> 1 \<le> axis_length_sq g
         \<and> predicted_mse rgb msk (gradient_fill g)
             < 0.85 * predicted_mse rgb msk (\<lambda>p. color_vec solid_color)
      then Some g else None)"
proof -
  have len: "(gx2 g - gx1 g) * (gx2 g - gx1 g) + (gy2 g - gy1 g) * (gy2 g - gy1 g) = axis_length_sq g"
    by (simp add: axis_length_sq_def power2_eq_square)
  show ?thesis
    unfolding verify_gradient_improvement_def Let_def mse_solid_eq mse_gradient_eq
    unfolding len
    by (simp add: not_less mult.commute)
qed

theorem verify_gradient_threshold_witness:
  "verify_gradient_improvement ramp_image ramp_mask (112, 112, 112) ramp_gradient = Some ramp_gradient
   \<and> verify_gradient_improvement ramp_image ramp_mask (112, 112, 112)
        (ramp_gradient\<lparr>color_end := (0, 0, 0)\<rparr>) = None"
  unfolding verify_gradient_threshold
  by (simp add: ramp_image_def ramp_mask_def ramp_gradient_def predicted_mse_def gradient_fill_def
      axis_length_sq_def to_float3_def upt_rec Let_def)


section \<open>Properties of gradient fitting\<close>


lemma ss_tot_nonneg: "0 \<le> ss_tot_of y"
  unfolding ss_tot_of_def by (rule sum_list_nonneg) auto

lemma channel_fit_None: "ss_tot_of y < 1 \<Longrightarrow> channel_fit t y = None"
  by (simp add: channel_fit_def ss_tot_of_def Let_def)

lemma channel_fit_Some:
  "\<not> ss_tot_of y < 1 \<Longrightarrow> \<exists>r cs ce. channel_fit t y = Some (ss_tot_of y, r, cs, ce)"
  by (simp add: channel_fit_def ss_tot_of_def Let_def)

lemma gated_nonneg: "0 \<le> gated y"
  using ss_tot_nonneg [of y] by (simp add: gated_def)

lemma channel_step_total:
  "fst ((\<lambda>(total_var, residual_var, c_start, c_end).
             case channel_fit t y of
               None \<Rightarrow> (total_var, residual_var, c_start, c_end)
             | Some (ss_tot, ss_res, cs, ce) \<Rightarrow>
                 (total_var + ss_tot, residual_var + ss_res, vset c_start ch cs, vset c_end ch ce)) acc)
     = fst acc + gated y"
proof (cases "ss_tot_of y < 1")
  case True
  then show ?thesis
    by (cases acc) (simp add: channel_fit_None gated_def)
next
  case False
  from channel_fit_Some [OF this, of t] obtain r cs ce
    where "channel_fit t y = Some (ss_tot_of y, r, cs, ce)" by blast
  then show ?thesis using False
    by (cases acc) (simp add: gated_def)
qed

lemma axis_stats_total:
  "fst (axis_stats t colors) =
     gated (map (vsel 0) colors) + gated (map (vsel 1) colors) + gated (map (vsel 2) colors)"
  unfolding axis_stats_def
  by (simp only: fold_simps channel_step_total fst_conv add_0)

lemma std_ss_tot:
  assumes "5 \<le> np_std y" and "y \<noteq> []"
  shows "25 * real (length y) \<le> ss_tot_of y"
proof -
  have n: "0 < real (length y)" using assms(2) by simp
  have "sqrt 25 \<le> sqrt (ss_tot_of y / real (length y))"
    using assms(1) by (simp add: np_std_def mean_real_def ss_tot_of_def)
  then have "25 \<le> ss_tot_of y / real (length y)" by (simp only: real_sqrt_le_iff)
  then show ?thesis using n by (simp add: pos_le_divide_eq)
qed

lemma gated_large:
  assumes "5 \<le> np_std y" and "20 \<le> length y"
  shows "1 \<le> gated y"
proof -
  have "y \<noteq> []" using assms(2) by auto
  from std_ss_tot [OF assms(1) this] assms(2)
  have "500 \<le> ss_tot_of y" by simp
  then show ?thesis by (simp add: gated_def)
qed

lemma total_var_after_gates:
  assumes "20 \<le> length msk" and "5 \<le> max_channel_std rgb msk"
  shows "1 \<le> axis_total_var rgb msk a"
proof -
  let ?c = "pixel_colors rgb msk"
  have len: "\<And>ch. 20 \<le> length (map (vsel ch) ?c)"
    using assms(1) by (simp add: pixel_colors_def)
  have "5 \<le> np_std (map (vsel 0) ?c) \<or> 5 \<le> np_std (map (vsel 1) ?c) \<or> 5 \<le> np_std (map (vsel 2) ?c)"
    using assms(2) by (auto simp: max_channel_std_def Let_def max_def split: if_splits)
  then have "1 \<le> gated (map (vsel 0) ?c) \<or> 1 \<le> gated (map (vsel 1) ?c) \<or> 1 \<le> gated (map (vsel 2) ?c)"
    using gated_large len by blast
  moreover have "axis_total_var rgb msk a = fst (axis_stats (axis_t msk a) ?c)"
    by (simp add: axis_total_var_def split_beta)
  ultimately show ?thesis
    using gated_nonneg [of "map (vsel 0) ?c"] gated_nonneg [of "map (vsel 1) ?c"]
      gated_nonneg [of "map (vsel 2) ?c"]
    unfolding axis_stats_total by linarith
qed

lemma sweep_fold:
  fixes q :: "'a \<Rightarrow> real"
  assumes acc: "\<And>a. acc a \<Longrightarrow> 0 < q a"
    and step: "\<And>a b br. a \<in> set xs \<Longrightarrow> f a (b, br) = (if acc a \<and> br < q a then (Some (g a), q a) else (b, br))"
  shows "case fold f xs (None, 0) of
           (None, br) \<Rightarrow> (\<forall>a\<in>set xs. \<not> acc a) \<and> br = 0
         | (Some v, br) \<Rightarrow> (\<exists>a\<in>set xs. acc a \<and> v = g a \<and> br = q a \<and> (\<forall>a'\<in>set xs. acc a' \<longrightarrow> q a' \<le> q a))"
  using step
proof (induction xs rule: rev_induct)
  case Nil
  then show ?case by simp
next
  case (snoc x xs)
  have IH: "case fold f xs (None, 0) of
           (None, br) \<Rightarrow> (\<forall>a\<in>set xs. \<not> acc a) \<and> br = 0
         | (Some v, br) \<Rightarrow> (\<exists>a\<in>set xs. acc a \<and> v = g a \<and> br = q a \<and> (\<forall>a'\<in>set xs. acc a' \<longrightarrow> q a' \<le> q a))"
    using snoc.prems by (intro snoc.IH) simp
  obtain b br where s: "fold f xs (None, 0) = (b, br)" by (cases "fold f xs (None, 0)")
  have fx: "f x (b, br) = (if acc x \<and> br < q x then (Some (g x), q x) else (b, br))"
    using snoc.prems by simp
  show ?case
  proof (cases b)
    case None
    then show ?thesis using IH s fx acc [of x] by (auto simp: fold_append)
  next
    case (Some v)
    with IH s obtain a0 where a0: "a0 \<in> set xs" "acc a0" "v = g a0" "br = q a0"
      "\<forall>a'\<in>set xs. acc a' \<longrightarrow> q a' \<le> q a0" by auto
    show ?thesis
    proof (cases "acc x \<and> br < q x")
      case True
      then have "fold f (xs @ [x]) (None, 0) = (Some (g x), q x)"
        using s fx by (simp add: fold_append)
      moreover have "\<forall>a'\<in>set (xs @ [x]). acc a' \<longrightarrow> q a' \<le> q x"
        using a0 True by fastforce
      ultimately show ?thesis using True by simp
    next
      case False
      then have "fold f (xs @ [x]) (None, 0) = (Some v, br)"
        using s fx Some by (simp add: fold_append)
      moreover have "\<forall>a'\<in>set (xs @ [x]). acc a' \<longrightarrow> q a' \<le> q a0"
        using a0 False by auto
      ultimately show ?thesis using a0 by auto
    qed
  qed
qed

lemma sweep_angles_set: "set sweep_angles = {a. a < 180 \<and> 5 dvd a}"
proof -
  have "a \<in> set sweep_angles \<longleftrightarrow> a < 180 \<and> 5 dvd a" for a
  proof
    assume "a \<in> set sweep_angles"
    then show "a < 180 \<and> 5 dvd a" by (auto simp: sweep_angles_def)
  next
    assume a: "a < 180 \<and> 5 dvd a"
    then obtain k where k: "a = 5 * k" by (auto simp: dvd_def)
    with a have "k < 36" by simp
    with k show "a \<in> set sweep_angles" by (auto simp: sweep_angles_def)
  qed
  then show ?thesis by auto
qed

text \<open>
  C4. \<open>fit_gradient\<close> returns nothing for a mask of fewer than 20 pixels and for a
  region whose largest per-channel standard deviation is below 5 (so in particular for
  a region of one colour). Otherwise it sweeps the angles 0, 5, ..., 175 degrees and
  returns the gradient of an accepted axis whose R-squared is the highest among all accepted
  axes of the sweep, and nothing exactly when no axis of the sweep is accepted. An axis
  is accepted when its projected span is at least 6, its aggregated R-squared is above 0.20
  and the distance between its end colours is above 15 (after the two gates the total
  variance is always at least 1, so that test of the loop rejects nothing); hence an
  axis with a span below 6, an R-squared of at most 0.20 or a colour range below 15 is
  rejected.
\<close>

theorem fit_gradient_selection:
  "(length msk < 20 \<longrightarrow> fit_gradient rgb msk = None)
   \<and> (max_channel_std rgb msk < 5 \<longrightarrow> fit_gradient rgb msk = None)
   \<and> set sweep_angles = {a. a < 180 \<and> 5 dvd a}
   \<and> (20 \<le> length msk \<and> 5 \<le> max_channel_std rgb msk \<longrightarrow>
        (case fit_gradient rgb msk of
           None \<Rightarrow> \<forall>a\<in>set sweep_angles. \<not> axis_accepted rgb msk a
         | Some g \<Rightarrow>
             \<exists>a\<in>set sweep_angles. axis_accepted rgb msk a \<and> g = axis_gradient rgb msk a
               \<and> (\<forall>a'\<in>set sweep_angles. axis_accepted rgb msk a'
                      \<longrightarrow> axis_r2 rgb msk a' \<le> axis_r2 rgb msk a)))
   \<and> (\<forall>a. axis_span msk a < 6 \<or> axis_r2 rgb msk a \<le> 0.20 \<or> axis_color_range rgb msk a < 15
          \<longrightarrow> \<not> axis_accepted rgb msk a)"
proof (intro conjI impI)
  show "set sweep_angles = {a. a < 180 \<and> 5 dvd a}" by (rule sweep_angles_set)
next
  assume "length msk < 20"
  then show "fit_gradient rgb msk = None" by (simp add: fit_gradient_def)
next
  assume "max_channel_std rgb msk < 5"
  then show "fit_gradient rgb msk = None" by (simp add: fit_gradient_def)
next
  show "\<forall>a. axis_span msk a < 6 \<or> axis_r2 rgb msk a \<le> 0.20 \<or> axis_color_range rgb msk a < 15
          \<longrightarrow> \<not> axis_accepted rgb msk a"
    by (auto simp: axis_accepted_def)
next
  assume gates: "20 \<le> length msk \<and> 5 \<le> max_channel_std rgb msk"
  then have tv: "\<And>a. \<not> axis_total_var rgb msk a < 1"
    using total_var_after_gates [of msk rgb] by (simp add: not_less)
  have fit: "fit_gradient rgb msk = fst (fold (sweep_step rgb msk) sweep_angles (None, 0))"
    using gates by (simp add: fit_gradient_def)
  have "case fold (sweep_step rgb msk) sweep_angles (None, 0) of
           (None, br) \<Rightarrow> (\<forall>a\<in>set sweep_angles. \<not> axis_accepted rgb msk a) \<and> br = 0
         | (Some v, br) \<Rightarrow> (\<exists>a\<in>set sweep_angles. axis_accepted rgb msk a \<and> v = axis_gradient rgb msk a
              \<and> br = axis_r2 rgb msk a
              \<and> (\<forall>a'\<in>set sweep_angles. axis_accepted rgb msk a' \<longrightarrow> axis_r2 rgb msk a' \<le> axis_r2 rgb msk a))"
  proof (rule sweep_fold)
    fix a assume "axis_accepted rgb msk a"
    then show "0 < axis_r2 rgb msk a" by (simp add: axis_accepted_def)
  next
    fix a b br
    show "sweep_step rgb msk a (b, br) =
       (if axis_accepted rgb msk a \<and> br < axis_r2 rgb msk a
        then (Some (axis_gradient rgb msk a), axis_r2 rgb msk a) else (b, br))"
      using tv [of a] by (auto simp: sweep_step_def axis_accepted_def)
  qed
  then show "case fit_gradient rgb msk of
           None \<Rightarrow> \<forall>a\<in>set sweep_angles. \<not> axis_accepted rgb msk a
         | Some g \<Rightarrow>
             \<exists>a\<in>set sweep_angles. axis_accepted rgb msk a \<and> g = axis_gradient rgb msk a
               \<and> (\<forall>a'\<in>set sweep_angles. axis_accepted rgb msk a'
                      \<longrightarrow> axis_r2 rgb msk a' \<le> axis_r2 rgb msk a)"
    unfolding fit by (auto split: prod.splits option.splits)
qed

lemma less_vnorm_iff: "0 \<le> t \<Longrightarrow> t < vnorm (x, y, z) \<longleftrightarrow> t\<^sup>2 < x\<^sup>2 + y\<^sup>2 + z\<^sup>2"
proof -
  have "sqrt (t\<^sup>2) < sqrt (x\<^sup>2 + y\<^sup>2 + z\<^sup>2) \<longleftrightarrow> t\<^sup>2 < x\<^sup>2 + y\<^sup>2 + z\<^sup>2"
    by (rule real_sqrt_less_iff)
  then show ?thesis if "0 \<le> t" using that by simp
qed

lemma le_sqrt_iff: "0 \<le> t \<Longrightarrow> t \<le> sqrt v \<longleftrightarrow> t\<^sup>2 \<le> v"
proof -
  have "sqrt (t\<^sup>2) \<le> sqrt v \<longleftrightarrow> t\<^sup>2 \<le> v" by (rule real_sqrt_le_iff)
  then show ?thesis if "0 \<le> t" using that by simp
qed

lemma two_tone_colors:
  "pixel_colors two_tone_image two_tone_mask = [(0, 0, 0), (100, 100, 100), (0, 0, 0), (100, 100, 100), (0, 0, 0), (100, 100, 100), (0, 0, 0), (100, 100, 100), (0, 0, 0), (100, 100, 100), (0, 0, 0), (100, 100, 100), (0, 0, 0), (100, 100, 100), (0, 0, 0), (100, 100, 100), (0, 0, 0), (100, 100, 100), (0, 0, 0), (100, 100, 100)]"
  by (simp add: pixel_colors_def two_tone_image_def two_tone_mask_def to_float3_def upt_rec)

lemma two_tone_std: "5 \<le> max_channel_std two_tone_image two_tone_mask"
  unfolding max_channel_std_def two_tone_colors Let_def
  by (simp add: np_std_def mean_real_def le_sqrt_iff le_max_iff_disj)

lemma two_tone_span: "axis_span two_tone_mask 0 = 10"
  by (simp add: axis_span_def axis_proj_def direction_def centered_coords_def mean_coord_def
      two_tone_mask_def mean_real_def upt_rec)

lemma two_tone_t: "axis_t two_tone_mask 0 = [0, 1, 0, 1, 0, 1, 0, 1, 0, 1, 0, 1, 0, 1, 0, 1, 0, 1, 0, 1]"
  by (simp add: axis_t_def axis_span_def axis_proj_def direction_def centered_coords_def mean_coord_def
      two_tone_mask_def mean_real_def upt_rec)

lemma two_tone_channel:
  "map (vsel ch) ([(0, 0, 0), (100, 100, 100), (0, 0, 0), (100, 100, 100), (0, 0, 0), (100, 100, 100), (0, 0, 0), (100, 100, 100), (0, 0, 0), (100, 100, 100), (0, 0, 0), (100, 100, 100), (0, 0, 0), (100, 100, 100), (0, 0, 0), (100, 100, 100), (0, 0, 0), (100, 100, 100), (0, 0, 0), (100, 100, 100)]) = [0, 100, 0, 100, 0, 100, 0, 100, 0, 100, 0, 100, 0, 100, 0, 100, 0, 100, 0, 100]"
  by (simp add:)

lemma two_tone_fit:
  "channel_fit ([0, 1, 0, 1, 0, 1, 0, 1, 0, 1, 0, 1, 0, 1, 0, 1, 0, 1, 0, 1]) ([0, 100, 0, 100, 0, 100, 0, 100, 0, 100, 0, 100, 0, 100, 0, 100, 0, 100, 0, 100])
    = Some (50000, 20 * (50 - (500 / (5 + 1 / 10 ^ 10)) / 2)\<^sup>2,
        50 - (500 / (5 + 1 / 10 ^ 10)) / 2, 50 + (500 / (5 + 1 / 10 ^ 10)) / 2)"
  by (simp add: channel_fit_def mean_real_def Let_def clip_def power2_eq_square)

lemma two_tone_accepted: "axis_accepted two_tone_image two_tone_mask 0"
  unfolding axis_accepted_def axis_r2_def axis_color_range_def two_tone_span two_tone_t two_tone_colors
    axis_stats_def fold_simps two_tone_channel two_tone_fit
  by (simp add: power2_eq_square less_vnorm_iff del: vnorm.simps)

lemma flat_std: "max_channel_std (\<lambda>p. (7, 7, 7)) two_tone_mask < 5"
  by (simp add: max_channel_std_def pixel_colors_def two_tone_mask_def to_float3_def upt_rec
      np_std_def mean_real_def Let_def)

theorem fit_gradient_selection_witness:
  "fit_gradient two_tone_image [] = None
   \<and> fit_gradient (\<lambda>p. (7, 7, 7)) two_tone_mask = None
   \<and> (\<exists>g a. fit_gradient two_tone_image two_tone_mask = Some g \<and> a < 180 \<and> 5 dvd a
          \<and> axis_accepted two_tone_image two_tone_mask a \<and> g = axis_gradient two_tone_image two_tone_mask a
          \<and> axis_r2 two_tone_image two_tone_mask 0 \<le> axis_r2 two_tone_image two_tone_mask a)"
proof -
  have len: "20 \<le> length two_tone_mask" by (simp add: two_tone_mask_def upt_rec)
  have zero: "0 \<in> set sweep_angles" by (simp add: sweep_angles_def upt_rec)
  note inst = fit_gradient_selection [of "[]" two_tone_image]
    fit_gradient_selection [of two_tone_mask "\<lambda>p. (7, 7, 7)"]
    fit_gradient_selection [of two_tone_mask two_tone_image]
  have "fit_gradient two_tone_image [] = None" using inst(1) by simp
  moreover have "fit_gradient (\<lambda>p. (7, 7, 7)) two_tone_mask = None" using inst(2) flat_std by blast
  moreover have "\<exists>g a. fit_gradient two_tone_image two_tone_mask = Some g \<and> a < 180 \<and> 5 dvd a
          \<and> axis_accepted two_tone_image two_tone_mask a \<and> g = axis_gradient two_tone_image two_tone_mask a
          \<and> axis_r2 two_tone_image two_tone_mask 0 \<le> axis_r2 two_tone_image two_tone_mask a"
  proof (cases "fit_gradient two_tone_image two_tone_mask")
    case None
    then have "\<forall>a\<in>set sweep_angles. \<not> axis_accepted two_tone_image two_tone_mask a"
      using inst(3) len two_tone_std by simp
    then show ?thesis using zero two_tone_accepted by blast
  next
    case (Some g)
    then obtain a where "a \<in> set sweep_angles" "axis_accepted two_tone_image two_tone_mask a"
      "g = axis_gradient two_tone_image two_tone_mask a"
      "\<forall>a'\<in>set sweep_angles. axis_accepted two_tone_image two_tone_mask a'
          \<longrightarrow> axis_r2 two_tone_image two_tone_mask a' \<le> axis_r2 two_tone_image two_tone_mask a"
      using inst(3) len two_tone_std by auto
    then show ?thesis using Some zero two_tone_accepted inst(3) by auto
  qed
  ultimately show ?thesis by blast
qed


section \<open>Properties of the serialization order\<close>


lemma same_shape_update: "j < length ps \<Longrightarrow> same_shape (ps[i := (ps ! i)\<lparr>grad_id := v\<rparr>] ! j) (ps ! j)"
  by (cases "j = i") (simp_all add: same_shape_def)

lemma assign_grad_ids_keeps:
  "assign_grad_ids is ps k defs = (ps', defs') \<Longrightarrow>
     length ps' = length ps \<and> (\<forall>j<length ps. same_shape (ps' ! j) (ps ! j))"
proof (induction "is" arbitrary: ps k defs)
  case Nil
  then show ?case by (simp add: same_shape_def)
next
  case (Cons i "is")
  show ?case
  proof (cases "gradient (ps ! i)")
    case None
    then show ?thesis using Cons by simp
  next
    case (Some g)
    let ?ps = "ps[i := (ps ! i)\<lparr>grad_id := Some k\<rparr>]"
    have "assign_grad_ids is ?ps (k + 1) (defs @ [(k, g)]) = (ps', defs')"
      using Cons.prems Some by simp
    from Cons.IH [OF this]
    have len: "length ps' = length ps" and same: "\<forall>j<length ps. same_shape (ps' ! j) (?ps ! j)"
      by simp_all
    have "same_shape (ps' ! j) (ps ! j)" if "j < length ps" for j
      using same same_shape_update [OF that, of i "Some k"] that by (auto simp: same_shape_def)
    with len show ?thesis by simp
  qed
qed

lemma lex_sorted_dark_first:
  assumes "sorted (map (\<lambda>p. (- fst p, snd p)) xs)"
  shows "dark_first xs"
  unfolding dark_first_def
proof (intro allI impI)
  fix j i assume j: "j < length xs" and i: "i < j"
  have "map (\<lambda>p. (- fst p, snd p)) xs ! i \<le> map (\<lambda>p. (- fst p, snd p)) xs ! j"
    using assms i j by (intro sorted_nth_mono) simp_all
  then have "(- fst (xs ! i), snd (xs ! i)) \<le> (- fst (xs ! j), snd (xs ! j))"
    using i j by simp
  then show "fst (xs ! j) < fst (xs ! i) \<or> fst (xs ! i) = fst (xs ! j) \<and> snd (xs ! i) \<le> snd (xs ! j)"
    by (auto simp: less_eq_prod_def)
qed

lemma lex_sorted_bright_first:
  assumes "sorted (map (\<lambda>p. (- fst p, - snd p)) xs)"
  shows "bright_first xs"
  unfolding bright_first_def
proof (intro allI impI)
  fix j i assume j: "j < length xs" and i: "i < j"
  have "map (\<lambda>p. (- fst p, - snd p)) xs ! i \<le> map (\<lambda>p. (- fst p, - snd p)) xs ! j"
    using assms i j by (intro sorted_nth_mono) simp_all
  then have "(- fst (xs ! i), - snd (xs ! i)) \<le> (- fst (xs ! j), - snd (xs ! j))"
    using i j by simp
  then show "fst (xs ! j) < fst (xs ! i) \<or> fst (xs ! i) = fst (xs ! j) \<and> snd (xs ! j) \<le> snd (xs ! i)"
    by (auto simp: less_eq_prod_def)
qed

lemma z_order_set: "set (z_order ps) = {..<length ps}" and z_order_distinct: "distinct (z_order ps)"
  by (auto simp: z_order_def)

lemma filter_z_order_dark_first:
  "dark_first (map (\<lambda>i. shape_key (ps ! i)) (filter P (z_order ps)))"
proof -
  let ?key = "\<lambda>i. (- area (ps ! i), p_brightness (ps ! i))"
  have "sorted (map ?key (z_order ps))" unfolding z_order_def by (rule sorted_sort_key)
  then have "sorted (map ?key (filter P (z_order ps)))" by (rule sorted_filter)
  then have "sorted (map (\<lambda>p. (- fst p, snd p)) (map (\<lambda>i. shape_key (ps ! i)) (filter P (z_order ps))))"
    by (simp add: shape_key_def comp_def)
  then show ?thesis by (rule lex_sorted_dark_first)
qed

lemma sort_layers_bright_first: "bright_first (map layer_key (sort_layers layers))"
proof -
  have "sorted (map (\<lambda>l. (- total_area l, - layer_brightness l)) (sort_layers layers))"
    unfolding sort_layers_def by (rule sorted_sort_key)
  then have "sorted (map (\<lambda>p. (- fst p, - snd p)) (map layer_key (sort_layers layers)))"
    by (simp add: layer_key_def comp_def)
  then show ?thesis by (rule lex_sorted_bright_first)
qed

text \<open>
  C7, amended. \<open>polygons_to_svg\<close> emits the filled polygons (those with an opacity of
  at least 0.01) in the stable order of descending area first and ascending brightness
  second: of two emitted polygons the one with the larger area comes earlier and, among
  equal areas, the darker one; the outline polygons follow, in the same order among
  themselves. The quantizing vectorizer emits its colour layers by descending total
  area first and descending brightness second.
\<close>

theorem z_order_at_serialization:
  "(\<exists>fills outlines.
      doc_fills (fst (polygons_to_svg polygons w h stroke_info))
        = map (\<lambda>i. fill_polygon (snd (polygons_to_svg polygons w h stroke_info) ! i)) fills
      \<and> doc_outlines (fst (polygons_to_svg polygons w h stroke_info))
        = map (\<lambda>i. outline_polygon stroke_info (snd (polygons_to_svg polygons w h stroke_info) ! i)) outlines
      \<and> fills = filter (\<lambda>i. visible (polygons ! i)) (z_order polygons)
      \<and> outlines = filter (\<lambda>i. has_stroke stroke_info (polygons ! i)) (z_order polygons)
      \<and> set (z_order polygons) = {..<length polygons} \<and> distinct (z_order polygons)
      \<and> dark_first (map (\<lambda>i. shape_key (polygons ! i)) fills)
      \<and> dark_first (map (\<lambda>i. shape_key (polygons ! i)) outlines))
   \<and> set (sort_layers layers) = set layers \<and> length (sort_layers layers) = length layers
   \<and> bright_first (map layer_key (sort_layers layers))"
proof -
  obtain ps' defs where a: "assign_grad_ids (z_order polygons) polygons 0 [] = (ps', defs)"
    by (cases "assign_grad_ids (z_order polygons) polygons 0 []")
  note keep = assign_grad_ids_keeps [OF a]
  have idx: "\<And>i. i \<in> set (z_order polygons) \<Longrightarrow> i < length polygons"
    using z_order_set [of polygons] by auto
  have f1: "filter (\<lambda>i. visible (ps' ! i)) (z_order polygons)
      = filter (\<lambda>i. visible (polygons ! i)) (z_order polygons)"
    by (rule filter_cong [OF refl]) (use keep idx in \<open>auto simp: visible_def same_shape_def\<close>)
  have f2: "filter (\<lambda>i. has_stroke stroke_info (ps' ! i)) (z_order polygons)
      = filter (\<lambda>i. has_stroke stroke_info (polygons ! i)) (z_order polygons)"
    by (rule filter_cong [OF refl]) (use keep idx in \<open>auto simp: has_stroke_def same_shape_def\<close>)
  have "set (sort_layers layers) = set layers \<and> length (sort_layers layers) = length layers"
    by (simp add: sort_layers_def)
  then show ?thesis
    using filter_z_order_dark_first sort_layers_bright_first z_order_set z_order_distinct
    by (simp add: polygons_to_svg_def a Let_def f1 f2)
qed

text \<open>
  C7, as stated, fails for the quantizing vectorizer: of two layers of equal area it
  emits the brighter one first.
\<close>

theorem quantized_order_counterexample:
  "\<not> dark_first (map layer_key (sort_layers [demo_layer 20, demo_layer 80]))"
  by (simp add: dark_first_def sort_layers_def layer_key_def demo_layer_def All_less_Suc)

theorem z_order_at_serialization_witness:
  "map sp_points (doc_fills (fst (polygons_to_svg
       [demo_polygon 0 10 5, demo_polygon 1 50 70, demo_polygon 2 50 30] 4 4 (\<lambda>rid. None))))
     = [points (demo_polygon 2 50 30), points (demo_polygon 1 50 70), points (demo_polygon 0 10 5)]
   \<and> dark_first [(50, 30), (50, 70), (10, 5)]
   \<and> map layer_key (sort_layers [demo_layer 20, demo_layer 80]) = [(100, 80), (100, 20)]
   \<and> bright_first [(100, 80), (100, 20)]"
  using z_order_at_serialization [of "[demo_polygon 0 10 5, demo_polygon 1 50 70, demo_polygon 2 50 30]"
      4 4 "\<lambda>rid. None" "[demo_layer 20, demo_layer 80]"]
  by (simp add: polygons_to_svg_def z_order_def upt_rec demo_polygon_def visible_def fill_polygon_def
      Let_def sort_layers_def layer_key_def demo_layer_def shape_key_def has_stroke_def)


section \<open>Properties of direct colour optimization\<close>


lemma robust_color_total: "colors \<noteq> [] \<Longrightarrow> \<exists>c. robust_color colors = Inr c"
  using robust_color_eq by blast

lemma optimize_polygon_fixed:
  "\<exists>poly' adjusted. optimize_polygon erode rgb labels poly = Inr (poly', adjusted)
       \<and> optimize_polygon erode rgb labels poly' = Inr (poly', False)"
proof (cases "region_id poly")
  case None
  then show ?thesis by (auto simp: optimize_polygon_def)
next
  case (Some rid)
  let ?er = "interior_pixels erode labels rid"
  show ?thesis
  proof (cases "length ?er < 5")
    case True
    then show ?thesis using Some by (auto simp: optimize_polygon_def)
  next
    case False
    then have "map rgb ?er \<noteq> []" by auto
    from robust_color_total [OF this] obtain optimal where opt: "robust_color (map rgb ?er) = Inr optimal"
      by blast
    show ?thesis
    proof (cases "gradient poly \<noteq> None \<and> 50 < length ?er")
      case nograd: False
      then show ?thesis
        using Some False opt by (auto simp: optimize_polygon_def Let_def)
    next
      case grad: True
      show ?thesis
      proof (cases "fit_gradient rgb ?er")
        case None
        then show ?thesis
          using Some False opt grad by (auto simp: optimize_polygon_def Let_def)
      next
        case fit: (Some new_grad)
        show ?thesis
        proof (cases "verify_gradient_improvement rgb ?er optimal new_grad")
          case None
          then show ?thesis
            using Some False opt grad fit by (auto simp: optimize_polygon_def Let_def)
        next
          case ver: (Some verified)
          then show ?thesis
            using Some False opt grad fit by (auto simp: optimize_polygon_def Let_def)
        qed
      qed
    qed
  qed
qed

lemma optimize_loop_fixed:
  "\<exists>ps' n. optimize_loop erode rgb labels ps k = Inr (ps', n) \<and> k \<le> n \<and> n \<le> k + length ps
      \<and> (\<forall>m. optimize_loop erode rgb labels ps' m = Inr (ps', m))"
proof (induction ps arbitrary: k)
  case Nil
  then show ?case by simp
next
  case (Cons p ps)
  obtain p' adj where p: "optimize_polygon erode rgb labels p = Inr (p', adj)"
    "optimize_polygon erode rgb labels p' = Inr (p', False)"
    using optimize_polygon_fixed by blast
  obtain ps' n where ps: "optimize_loop erode rgb labels ps (if adj then k + 1 else k) = Inr (ps', n)"
    "(if adj then k + 1 else k) \<le> n" "n \<le> (if adj then k + 1 else k) + length ps"
    "\<forall>m. optimize_loop erode rgb labels ps' m = Inr (ps', m)"
    using Cons.IH by blast
  show ?case
    using p ps by (auto split: if_splits)
qed

text \<open>
  C8. \<open>direct_optimize_colors\<close> never raises, and its result is a fixed point: applied
  again to the polygons it returns, with the same image and label map, it changes no
  polygon (no fill colour, and no gradient either) and returns an adjusted count of 0.
  The optimum of a polygon depends on the image and on the region only, not on the
  polygon's present colour.
\<close>

theorem direct_optimize_idempotent:
  "\<exists>polygons' n. direct_optimize_colors erode rgb labels polygons = Inr (polygons', n)
      \<and> n \<le> length polygons
      \<and> direct_optimize_colors erode rgb labels polygons' = Inr (polygons', 0)"
  using optimize_loop_fixed [of erode rgb labels polygons 0]
  by (auto simp: direct_optimize_colors_def)


lemma row_mask: "region_mask [[0, 0, 0, 0, 0]] 0 = [(0, 0), (1, 0), (2, 0), (3, 0), (4, 0)]"
proof -
  have a: "[0..<length [[0, 0, 0, 0, 0 :: int]]] = [0]" by simp
  have b: "[0..<length ([[0, 0, 0, 0, 0 :: int]] ! 0)] = [0, 1, 2, 3, 4]" by (simp add: upt_rec)
  show ?thesis
    unfolding region_mask_def a by (simp add: b)
qed


lemma row_interior: "interior_pixels (\<lambda>k i m. []) [[0, 0, 0, 0, 0]] 0 = [(0, 0), (1, 0), (2, 0), (3, 0), (4, 0)]"
  by (simp add: interior_pixels_def row_mask)

lemma row_color:
  "robust_color [(10, 20, 30), (10, 20, 30), (10, 20, 30), (10, 20, 30), (10, 20, 30)] = Inr (10, 20, 30)"
  by (simp add: robust_color_eq median_int_def)

theorem direct_optimize_idempotent_witness:
  "direct_optimize_colors (\<lambda>k i m. []) (\<lambda>p. (10, 20, 30)) [[0, 0, 0, 0, 0]]
       [(demo_polygon 0 10 5)\<lparr>color := (0, 0, 0)\<rparr>] = Inr ([demo_polygon 0 10 5], 1)
   \<and> direct_optimize_colors (\<lambda>k i m. []) (\<lambda>p. (10, 20, 30)) [[0, 0, 0, 0, 0]]
       [demo_polygon 0 10 5] = Inr ([demo_polygon 0 10 5], 0)"
  using direct_optimize_idempotent [of "\<lambda>k i m. []" "\<lambda>p. (10, 20, 30)" "[[0, 0, 0, 0, 0]]"
      "[(demo_polygon 0 10 5)\<lparr>color := (0, 0, 0)\<rparr>]"]
  by (simp add: direct_optimize_colors_def optimize_polygon_def row_interior row_color
      demo_polygon_def Let_def)


section \<open>Properties of the refinement loop\<close>


lemma fg_all: "foreground (\<lambda>p. 255) (Suc 0) (Suc 0) = [(0, 0)]"
  by (simp add: foreground_def upt_rec)

lemma fg_none: "foreground (\<lambda>p. 0) (Suc 0) (Suc 0) = []"
  by (simp add: foreground_def upt_rec)

lemma empty_svg: "polygons_to_svg [] w h si = (\<lparr>doc_width = w, doc_height = h, doc_defs = [],
    doc_fills = [], doc_outlines = []\<rparr>, [])"
  by (simp add: polygons_to_svg_def z_order_def)

lemma white_psnr: "compute_psnr (\<lambda>p. (255, 255, 255)) (\<lambda>p. (0, 0, 0)) [(0, 0)] = Some 0"
  by (simp add: compute_psnr_def to_float3_def mean_real_def)

lemma nan_psnr: "compute_psnr orig rendered [] = None"
  by (simp add: compute_psnr_def)

text \<open>
  C9 (rollback before any snapshot). A white foreground pixel, no polygon, and a render
  that is black there: the mean squared error is \<open>255\<^sup>2\<close>, so \<open>compute_psnr\<close> returns
  exactly 0, which is not greater than the initial \<open>best_psnr = 0\<close>. The first iteration
  therefore takes the rollback branch with no snapshot recorded, and
  \<open>_restore_state\<close> raises \<open>TypeError\<close>. The same happens with an empty foreground
  mask, where the PSNR is NaN.
\<close>

theorem rollback_without_snapshot:
  "refinement_loop blank_env 15 [] (\<lambda>rid. None) = Inl TypeError
   \<and> compute_psnr (env_rgb blank_env) (\<lambda>p. (0, 0, 0)) (env_fg_mask blank_env) = Some 0
   \<and> refinement_loop (blank_env\<lparr>env_fg_mask := foreground (\<lambda>p. 0) 1 1\<rparr>) 15 [] (\<lambda>rid. None)
       = Inl TypeError"
  by (simp add: refinement_loop_def upt_rec refine_step_def write_and_render_def empty_svg
      blank_env_def fg_all fg_none white_psnr nan_psnr track_best_def psnr_greater_def
      restore_state_def Let_def)

text \<open>
  C1 (stale gradient id). The steps of the loop around a rollback, on one solid polygon:
  the markup of the best state is written and the state is saved; the polygon is
  upgraded to a gradient, as \<open>try_upgrade_to_gradient\<close> does; the next markup is
  written, which stores \<open>_grad_id\<close> in the polygon; the saved state is restored. The
  restored polygon has the saved colour and no gradient, but keeps \<open>_grad_id\<close>, so the
  markup written from the restored state fills it with \<open>url(#g0)\<close>, a gradient that
  the document does not define, instead of its colour: the final output is not the
  output of the best state.
\<close>

theorem stale_gradient_id_after_restore:
  "\<exists>doc_best ps_best ps_up doc_up ps_back si_back doc_final ps_final.
      polygons_to_svg [solid_polygon] 50 3 (\<lambda>rid. None) = (doc_best, ps_best)
    \<and> polygons_to_svg (ps_best[0 := (ps_best ! 0)\<lparr>gradient := Some ramp_gradient\<rparr>]) 50 3 (\<lambda>rid. None)
         = (doc_up, ps_up)
    \<and> restore_state ps_up (\<lambda>rid. None) (Some (snapshot_state ps_best (\<lambda>rid. None)))
         = Inr (ps_back, si_back)
    \<and> polygons_to_svg ps_back 50 3 si_back = (doc_final, ps_final)
    \<and> map color ps_back = map color ps_best \<and> map gradient ps_back = map gradient ps_best
    \<and> map sp_fill (doc_fills doc_best) = [Solid (100, 100, 100)]
    \<and> map sp_fill (doc_fills doc_final) = [Url 0]
    \<and> doc_defs doc_final = []
    \<and> doc_final \<noteq> doc_best"
  by (simp add: polygons_to_svg_def z_order_def solid_polygon_def visible_def has_stroke_def
      fill_polygon_def restore_state_def snapshot_state_def Let_def)


end
